(* ===== verification/Go_Prelude.thy ===== *)
theory Go_Prelude
  imports Main "HOL-Library.Word" "HOL-Library.Sublist"
begin

text \<open>
  Shared vocabulary of the development: the machine types of the Go sources
  (\<open>byte\<close>, \<open>uint16\<close>, \<open>uint32\<close>, \<open>uint64\<close>), the conversion between Go strings and
  byte slices, the big-endian codecs of \<^verbatim>\<open>encoding/binary\<close>, the formatting verbs
  \<^verbatim>\<open>%d\<close>, \<^verbatim>\<open>%x\<close> and \<^verbatim>\<open>%02x\<close>, the functions of package \<^verbatim>\<open>strings\<close>
  that the sources call, and the generic list lemmas the component theories use.
  A Go string is a sequence of bytes and is modelled as a HOL \<open>string\<close> (a list of
  8-bit characters), a byte slice as a list of 8-bit words.
\<close>

unbundle bit_operations_syntax

named_theorems codec_simps \<open>evaluation rules of the wire codec's primitives\<close>
named_theorems step_intros \<open>introduction rules of compositional specifications\<close>
named_theorems err_simps \<open>evaluation of the error tests\<close>

section \<open>Types\<close>

type_synonym byte = "8 word"
type_synonym bytes = "byte list"
type_synonym u16 = "16 word"
type_synonym u32 = "32 word"
type_synonym u64 = "64 word"

section \<open>Strings and byte slices\<close>

definition byte_of_char :: "char \<Rightarrow> byte" where
  "byte_of_char c = word_of_nat (of_char c)"

definition char_of_byte :: "byte \<Rightarrow> char" where
  "char_of_byte b = char_of (unat b)"

text \<open>The conversions \<^verbatim>\<open>[]byte(s)\<close> and \<^verbatim>\<open>string(b)\<close>.\<close>

definition bytes_of_string :: "string \<Rightarrow> bytes" where
  "bytes_of_string s = map byte_of_char s"

definition string_of_bytes :: "bytes \<Rightarrow> string" where
  "string_of_bytes b = map char_of_byte b"

section \<open>encoding/binary, big endian\<close>

definition PutUint16 :: "u16 \<Rightarrow> bytes" where
  "PutUint16 v = [ucast (drop_bit 8 v), ucast v]"

definition PutUint32 :: "u32 \<Rightarrow> bytes" where
  "PutUint32 v = [ucast (drop_bit 24 v), ucast (drop_bit 16 v), ucast (drop_bit 8 v), ucast v]"

definition PutUint64 :: "u64 \<Rightarrow> bytes" where
  "PutUint64 v =
     [ucast (drop_bit 56 v), ucast (drop_bit 48 v), ucast (drop_bit 40 v), ucast (drop_bit 32 v),
      ucast (drop_bit 24 v), ucast (drop_bit 16 v), ucast (drop_bit 8 v), ucast v]"

text \<open>
  The decoders take a slice of exactly the right length; Go panics on a shorter one. The
  sources only pass fixed-size arrays, so the value on other lengths is never used.
\<close>

fun Uint16 :: "bytes \<Rightarrow> u16" where
  "Uint16 [b0, b1] = ucast b1 OR push_bit 8 (ucast b0)"
| "Uint16 _ = 0"

fun Uint32 :: "bytes \<Rightarrow> u32" where
  "Uint32 [b0, b1, b2, b3] =
     ucast b3 OR push_bit 8 (ucast b2) OR push_bit 16 (ucast b1) OR push_bit 24 (ucast b0)"
| "Uint32 _ = 0"

fun Uint64 :: "bytes \<Rightarrow> u64" where
  "Uint64 [b0, b1, b2, b3, b4, b5, b6, b7] =
     ucast b7 OR push_bit 8 (ucast b6) OR push_bit 16 (ucast b5) OR push_bit 24 (ucast b4) OR
     push_bit 32 (ucast b3) OR push_bit 40 (ucast b2) OR push_bit 48 (ucast b1) OR
     push_bit 56 (ucast b0)"
| "Uint64 _ = 0"

section \<open>Formatting verbs\<close>

definition hex_digit :: "nat \<Rightarrow> char" where
  "hex_digit d = (if d < 10 then char_of (48 + d) else char_of (87 + d))"

fun fmt_d :: "nat \<Rightarrow> string" where
  "fmt_d n = (if n < 10 then [hex_digit n] else fmt_d (n div 10) @ [hex_digit (n mod 10)])"

fun fmt_x :: "nat \<Rightarrow> string" where
  "fmt_x n = (if n < 16 then [hex_digit n] else fmt_x (n div 16) @ [hex_digit (n mod 16)])"

declare fmt_d.simps [simp del] fmt_x.simps [simp del]

definition fmt_02x :: "byte \<Rightarrow> string" where
  "fmt_02x b = [hex_digit (unat b div 16), hex_digit (unat b mod 16)]"

section \<open>Package strings\<close>

text \<open>\<^verbatim>\<open>strings.Contains(s, sub)\<close>, \<^verbatim>\<open>HasPrefix\<close>, \<^verbatim>\<open>HasSuffix\<close>.\<close>

fun HasPrefix :: "string \<Rightarrow> string \<Rightarrow> bool" where
  "HasPrefix s [] = True"
| "HasPrefix [] (y # ys) = False"
| "HasPrefix (x # xs) (y # ys) = (x = y \<and> HasPrefix xs ys)"

definition HasSuffix :: "string \<Rightarrow> string \<Rightarrow> bool" where
  "HasSuffix s t = HasPrefix (rev s) (rev t)"

fun Contains :: "string \<Rightarrow> string \<Rightarrow> bool" where
  "Contains [] t = (t = [])"
| "Contains (x # xs) t = (HasPrefix (x # xs) t \<or> Contains xs t)"

text \<open>\<^verbatim>\<open>strings.Split(s, sep)\<close> for a separator of one byte: never empty.\<close>

fun Split :: "char \<Rightarrow> string \<Rightarrow> string list" where
  "Split c [] = [[]]"
| "Split c (x # xs) =
     (if x = c then [] # Split c xs
      else (case Split c xs of [] \<Rightarrow> [[x]] | l # ls \<Rightarrow> (x # l) # ls))"

text \<open>\<^verbatim>\<open>strings.Join(elems, sep)\<close>.\<close>

fun Join :: "string list \<Rightarrow> string \<Rightarrow> string" where
  "Join [] sep = []"
| "Join [x] sep = x"
| "Join (x # y # ys) sep = x @ sep @ Join (y # ys) sep"

text \<open>
  \<^verbatim>\<open>strings.TrimSpace\<close> removes leading and trailing Unicode white space. The list holds
  the UTF-8 encodings of the code points for which \<^verbatim>\<open>unicode.IsSpace\<close> holds:
  U+0009 to U+000D, U+0020, U+0085, U+00A0, U+1680, U+2000 to U+200A, U+2028, U+2029,
  U+202F, U+205F and U+3000.
\<close>

definition space_codes :: "string list" where
  "space_codes = map (map char_of)
     ([[9::nat], [10], [11], [12], [13], [32], [194, 133], [194, 160], [225, 154, 128]]
      @ map (\<lambda>k. [226, 128, k]) [128, 129, 130, 131, 132, 133, 134, 135, 136, 137, 138]
      @ [[226, 128, 168], [226, 128, 169], [226, 128, 175], [226, 129, 159], [227, 128, 128]])"

text \<open>Number of bytes of the white-space code point at the front, 0 when there is none.\<close>

definition space_len :: "string list \<Rightarrow> string \<Rightarrow> nat" where
  "space_len codes s = (case find (HasPrefix s) codes of None \<Rightarrow> 0 | Some w \<Rightarrow> length w)"

function TrimFront :: "string list \<Rightarrow> string \<Rightarrow> string" where
  "TrimFront codes s =
     (if s \<noteq> [] \<and> 0 < space_len codes s then TrimFront codes (drop (space_len codes s) s) else s)"
  by pat_completeness auto
termination
  by (relation "measure (length \<circ> snd)") auto

declare TrimFront.simps [simp del]

definition TrimSpace :: "string \<Rightarrow> string" where
  "TrimSpace s = rev (TrimFront (map rev space_codes) (rev (TrimFront space_codes s)))"

section \<open>Lemmas on strings and bytes\<close>

lemma byte_of_char_of_byte [simp]: "byte_of_char (char_of_byte b) = b"
proof -
  have "unat b < 2 ^ LENGTH(8)" by (rule unsigned_less)
  then have "unat b < 256" by simp
  then show ?thesis by (simp add: byte_of_char_def char_of_byte_def)
qed

lemma char_of_byte_of_char [simp]: "char_of_byte (byte_of_char c) = c"
proof -
  have "of_char c < (256::nat)" by simp
  then have "unat (word_of_nat (of_char c) :: byte) = of_char c"
    by (simp add: unat_of_nat)
  then show ?thesis by (simp add: byte_of_char_def char_of_byte_def)
qed

lemma bytes_of_string_of_bytes [simp]: "bytes_of_string (string_of_bytes b) = b"
  by (simp add: bytes_of_string_def string_of_bytes_def comp_def)

lemma string_of_bytes_of_string [simp]: "string_of_bytes (bytes_of_string s) = s"
  by (simp add: bytes_of_string_def string_of_bytes_def comp_def)

lemma length_bytes_of_string [simp]: "length (bytes_of_string s) = length s"
  by (simp add: bytes_of_string_def)

lemma length_string_of_bytes [simp]: "length (string_of_bytes b) = length b"
  by (simp add: string_of_bytes_def)

lemma bytes_of_string_Nil [simp]: "bytes_of_string [] = []" "string_of_bytes [] = []"
  by (simp_all add: bytes_of_string_def string_of_bytes_def)

section \<open>Lemmas on the big-endian codecs\<close>

lemma length_PutUint [simp]:
  "length (PutUint16 a) = 2" "length (PutUint32 b) = 4" "length (PutUint64 c) = 8"
  by (simp_all add: PutUint16_def PutUint32_def PutUint64_def)

lemma byte_bit_high: "8 \<le> n \<Longrightarrow> \<not> bit (b :: byte) n"
  by (auto dest: bit_imp_le_length)

text \<open>Adding one byte to the part of a word above it gives the part from that byte on.\<close>

lemma glue_byte:
  fixes v :: "'a::len word"
  assumes "k' = k + 8"
  shows "push_bit k (ucast (ucast (drop_bit k v) :: byte)) OR push_bit k' (drop_bit k' v)
     = push_bit k (drop_bit k v)"
proof (rule bit_word_eqI)
  fix n assume "n < LENGTH('a)"
  then show "bit (push_bit k (ucast (ucast (drop_bit k v) :: byte)) OR push_bit k' (drop_bit k' v)) n
    = bit (push_bit k (drop_bit k v)) n"
    using assms by (cases "n < k + 8") (auto simp: bit_simps byte_bit_high)
qed

lemma glue_top_byte:
  fixes v :: "'a::len word"
  assumes "LENGTH('a) \<le> k + 8"
  shows "push_bit k (ucast (ucast (drop_bit k v) :: byte)) = push_bit k (drop_bit k v)"
  using assms by (intro bit_word_eqI) (auto simp: bit_simps)

lemmas glue_bytes = or.assoc glue_top_byte glue_byte glue_byte [where k = 0, simplified]

lemma Uint16_PutUint16 [simp]: "Uint16 (PutUint16 v) = v"
  by (simp add: PutUint16_def glue_bytes)

lemma Uint32_PutUint32 [simp]: "Uint32 (PutUint32 v) = v"
  by (simp add: PutUint32_def glue_bytes)

lemma Uint64_PutUint64 [simp]: "Uint64 (PutUint64 v) = v"
  by (simp add: PutUint64_def glue_bytes)

lemmas byte_ext = bit_simps byte_bit_high

lemma PutUint16_list: "PutUint16 (Uint16 [b0, b1]) = [b0, b1]"
  by (auto simp: PutUint16_def byte_ext intro!: bit_word_eqI)

lemma PutUint32_list: "PutUint32 (Uint32 [b0, b1, b2, b3]) = [b0, b1, b2, b3]"
  by (auto simp: PutUint32_def byte_ext intro!: bit_word_eqI)

lemma PutUint64_list:
  "PutUint64 (Uint64 [b0, b1, b2, b3, b4, b5, b6, b7]) = [b0, b1, b2, b3, b4, b5, b6, b7]"
  by (auto simp: PutUint64_def byte_ext intro!: bit_word_eqI)

lemma PutUint16_Uint16: "length b = 2 \<Longrightarrow> PutUint16 (Uint16 b) = b"
  by (auto simp: numeral_eq_Suc length_Suc_conv PutUint16_list simp del: Uint16.simps)

lemma PutUint32_Uint32: "length b = 4 \<Longrightarrow> PutUint32 (Uint32 b) = b"
  by (auto simp: numeral_eq_Suc length_Suc_conv PutUint32_list simp del: Uint32.simps)

lemma PutUint64_Uint64: "length b = 8 \<Longrightarrow> PutUint64 (Uint64 b) = b"
  by (auto simp: numeral_eq_Suc length_Suc_conv PutUint64_list simp del: Uint64.simps)

section \<open>Lemmas on package strings\<close>

lemma HasPrefix_iff: "HasPrefix s t \<longleftrightarrow> prefix t s"
  by (induction s t rule: HasPrefix.induct) auto

lemma HasSuffix_iff: "HasSuffix s t \<longleftrightarrow> suffix t s"
  by (simp add: HasSuffix_def HasPrefix_iff suffix_to_prefix)

lemma Contains_iff: "Contains s t \<longleftrightarrow> sublist t s"
  by (induction s) (auto simp: HasPrefix_iff sublist_Cons_right simp del: HasPrefix.simps)

lemma Split_not_Nil [simp]: "Split c s \<noteq> []"
  by (cases s) (auto split: list.splits)

text \<open>Splitting loses nothing, and no piece holds the separator.\<close>

lemma Join_Split: "Join (Split c s) [c] = s"
proof (induction s)
  case Nil
  show ?case by simp
next
  case (Cons x xs)
  obtain l ls where "Split c xs = l # ls" by (meson Split_not_Nil neq_Nil_conv)
  with Cons show ?case by (cases ls) auto
qed

lemma Split_no_sep: "l \<in> set (Split c s) \<Longrightarrow> c \<notin> set l"
  by (induction s arbitrary: l) (auto split: list.splits if_splits)

lemma Split_single: "c \<notin> set s \<Longrightarrow> Split c s = [s]"
  by (induction s) auto

lemma Split_append: "c \<notin> set s \<Longrightarrow> Split c (s @ c # t) = s # Split c t"
  by (induction s) auto

text \<open>\<^verbatim>\<open>TrimSpace\<close> on text framed by spaces.\<close>

lemma space_len_0: "s \<noteq> [] \<Longrightarrow> list_all (\<lambda>w. w \<noteq> [] \<and> hd w \<noteq> hd s) codes \<Longrightarrow> space_len codes s = 0"
  by (auto simp: space_len_def find_None_iff HasPrefix_iff list_all_iff prefix_def split: option.splits)
    (metis find_Some_iff hd_append2 nth_mem prefix_def HasPrefix_iff)

lemma char_of_eqs:
  "char_of (n::nat) = c \<longleftrightarrow> of_char c = n mod 256" "c = char_of (n::nat) \<longleftrightarrow> of_char c = n mod 256"
proof -
  show 1: "char_of (n::nat) = c \<longleftrightarrow> of_char c = n mod 256" for c by (auto simp: char_of_eq_iff take_bit_eq_mod)
  show "c = char_of (n::nat) \<longleftrightarrow> of_char c = n mod 256" using 1 by metis
qed

lemma space_len_blank:
  "space_len space_codes (CHR '' '' # s) = 1" "space_len (map rev space_codes) (CHR '' '' # s) = 1"
  by (simp_all add: space_len_def space_codes_def char_of_eqs)

lemma TrimFront_blank:
  "TrimFront space_codes (CHR '' '' # s) = TrimFront space_codes s"
  "TrimFront (map rev space_codes) (CHR '' '' # s) = TrimFront (map rev space_codes) s"
  by (subst TrimFront.simps, simp add: space_len_blank [simplified])+

definition graphic :: "char \<Rightarrow> bool" where
  "graphic c \<longleftrightarrow> 32 < (of_char c :: nat) \<and> (of_char c :: nat) < 127"

lemma TrimFront_graphic:
  assumes "s \<noteq> []" "graphic (hd s)"
  shows "TrimFront space_codes s = s" "TrimFront (map rev space_codes) s = s"
proof -
  have "list_all (\<lambda>w. w \<noteq> [] \<and> hd w \<noteq> hd s) space_codes" "list_all (\<lambda>w. w \<noteq> [] \<and> hd w \<noteq> hd s) (map rev space_codes)"
    using assms(2) by (auto simp: space_codes_def graphic_def char_of_eqs)
  with assms(1) show "TrimFront space_codes s = s" "TrimFront (map rev space_codes) s = s"
    by (subst TrimFront.simps, simp add: space_len_0)+
qed

lemma TrimFront_newline: "TrimFront (map rev space_codes) (char_of (10::nat) # s) = TrimFront (map rev space_codes) s"
proof -
  have "space_len (map rev space_codes) (char_of (10::nat) # s) = 1"
    by (simp add: space_len_def space_codes_def char_of_eqs)
  then show ?thesis by (subst TrimFront.simps) simp
qed

lemma TrimSpace_line:
  assumes "s \<noteq> []" "graphic (hd s)" "graphic (last s)"
  shows "TrimSpace (s @ [char_of (10::nat)]) = s"
  using assms by (simp add: TrimSpace_def TrimFront_newline TrimFront_graphic hd_rev)

lemma TrimSpace_graphic: "s \<noteq> [] \<Longrightarrow> graphic (hd s) \<Longrightarrow> graphic (last s) \<Longrightarrow> TrimSpace s = s"
  by (simp add: TrimSpace_def TrimFront_graphic hd_rev)

lemma TrimSpace_framed:
  assumes "s \<noteq> []" "graphic (hd s)" "graphic (last s)"
  shows "TrimSpace (CHR '' '' # s @ [CHR '' '']) = s"
  using assms by (simp add: TrimSpace_def TrimFront_blank TrimFront_graphic hd_rev)

lemma fmt_d_digits: "list_all (\<lambda>c. 48 \<le> (of_char c :: nat) \<and> (of_char c :: nat) \<le> 57) (fmt_d n) \<and> fmt_d n \<noteq> []"
proof (induction n rule: fmt_d.induct)
  case (1 n)
  then show ?case by (subst (1 2) fmt_d.simps) (auto simp: hex_digit_def)
qed

end
