(* ===== verification/Go_Errors.thy ===== *)
theory Go_Errors
  imports Go_Prelude
begin

text \<open>
  Go error values. A \<^verbatim>\<open>nil\<close> error is \<open>None\<close>; a non-nil one is a value of \<open>go_error\<close>.
  Package-level sentinels, inline \<^verbatim>\<open>errors.New\<close> values, \<^verbatim>\<open>fmt.Errorf\<close> values
  (kept as the segments of their format string, so that \<^verbatim>\<open>%w\<close> and \<^verbatim>\<open>%v\<close> operands
  are told apart), \<^verbatim>\<open>errors.Join\<close> values and the typed errors of the repository each have
  a constructor. \<open>Foreign\<close> stands for an error made outside the repository (a system call,
  a child process, a gRPC stream): its text and the sentinels it answers to under
  \<^verbatim>\<open>errors.Is\<close>. The functions model \<^verbatim>\<open>Error()\<close>, \<^verbatim>\<open>errors.Is\<close> with a sentinel
  target and \<^verbatim>\<open>errors.As\<close> with a typed target, and the contract the three typed errors
  share is the locale \<open>typed_error\<close>.
\<close>

section \<open>Error values\<close>

datatype sentinel =
    EOF | ErrUnexpectedEOF | Canceled | DeadlineExceeded | OsErrNotExist | OsErrClosed
  | ErrShortRead | ErrUnknownTag | ErrLengthInvalid | ErrFieldTooLong
  | TunErrClosed | TransportErrClosed

datatype go_error =
    Sentinel sentinel
  | ErrorsNew string
  | Errorf "seg list"
  | ErrorsJoin "go_error list"
  | PumpError string string "go_error option"
  | LinkError string "go_error option"
  | PreflightError string "go_error option"
  | ClangNotFoundError string go_error
  | UDPBufUnreadableError string go_error
  | UnsupportedPlatformError
  | Foreign string "sentinel list"
and seg = Txt string | W go_error | V go_error

fun sentinel_text :: "sentinel \<Rightarrow> string" where
  "sentinel_text EOF = ''EOF''"
| "sentinel_text ErrUnexpectedEOF = ''unexpected EOF''"
| "sentinel_text Canceled = ''context canceled''"
| "sentinel_text DeadlineExceeded = ''context deadline exceeded''"
| "sentinel_text OsErrNotExist = ''file does not exist''"
| "sentinel_text OsErrClosed = ''file already closed''"
| "sentinel_text ErrShortRead = ''tunnelpb: short read''"
| "sentinel_text ErrUnknownTag = ''tunnelpb: unknown tag''"
| "sentinel_text ErrLengthInvalid = ''tunnelpb: length invalid''"
| "sentinel_text ErrFieldTooLong = ''tunnelpb: field exceeds declared max''"
| "sentinel_text TunErrClosed = ''tun: device is closed''"
| "sentinel_text TransportErrClosed = ''transport: stream closed''"

text \<open>
  \<^verbatim>\<open>%q\<close>: the double-quoted form of a string. Exact for ASCII; a byte above 127 is
  rendered as a hexadecimal escape, which is what Go prints for bytes that are not valid
  UTF-8. No definition of the development branches on the quoted text.
\<close>

definition quote_char :: "char \<Rightarrow> string" where
  "quote_char c =
     (let n = of_char c :: nat; bs = char_of (92::nat); dq = char_of (34::nat) in
      if n = 34 then [bs, dq] else if n = 92 then [bs, bs]
      else if n = 7 then bs # ''a'' else if n = 8 then bs # ''b'' else if n = 9 then bs # ''t''
      else if n = 10 then bs # ''n'' else if n = 11 then bs # ''v'' else if n = 12 then bs # ''f''
      else if n = 13 then bs # ''r''
      else if 32 \<le> n \<and> n < 127 then [c]
      else bs # CHR ''x'' # fmt_02x (word_of_nat n))"

definition fmt_q :: "string \<Rightarrow> string" where
  "fmt_q s = [char_of (34::nat)] @ concat (map quote_char s) @ [char_of (34::nat)]"

text \<open>
  The \<^verbatim>\<open>Error()\<close> methods of the typed errors, given the text of their cause, when they have one.
\<close>

definition PumpError_Error :: "string \<Rightarrow> string \<Rightarrow> string option \<Rightarrow> string" where
  "PumpError_Error reason op cause =
     (case cause of None \<Rightarrow> ''pump: '' @ op @ '': '' @ reason
      | Some t \<Rightarrow> ''pump: '' @ op @ '': '' @ reason @ '': '' @ t)"

definition LinkError_Error :: "string \<Rightarrow> string option \<Rightarrow> string" where
  "LinkError_Error reason cause =
     (case cause of None \<Rightarrow> ''link: '' @ reason | Some t \<Rightarrow> ''link: '' @ reason @ '': '' @ t)"

definition PreflightError_Error :: "string \<Rightarrow> string option \<Rightarrow> string" where
  "PreflightError_Error reason cause =
     (case cause of Some t \<Rightarrow> ''tun preflight: '' @ reason @ '': '' @ t | None \<Rightarrow> ''tun preflight: '' @ reason)"

definition ClangNotFoundError_Error :: "string \<Rightarrow> string \<Rightarrow> string" where
  "ClangNotFoundError_Error path err =
     (if path \<noteq> [] then ''hostprobe: clang not found at '' @ fmt_q path @ '' ('' @ err
        @ ''); install via TODO row 10a (sudo apt install clang libbpf-dev llvm)''
      else ''hostprobe: clang not found on PATH ('' @ err
        @ ''); install via TODO row 10a (sudo apt install clang libbpf-dev llvm)'')"

definition UDPBufUnreadableError_Error :: "string \<Rightarrow> string \<Rightarrow> string" where
  "UDPBufUnreadableError_Error path err = ''hostprobe: cannot parse '' @ path @ '': '' @ err"

definition UnsupportedPlatformError_Error :: string where
  "UnsupportedPlatformError_Error = ''hostprobe: caps probe is Linux-only (cross-compile stub)''"

text \<open>The \<^verbatim>\<open>Error()\<close> methods.\<close>

fun error_text :: "go_error \<Rightarrow> string" and seg_text :: "seg \<Rightarrow> string" where
  "error_text (Sentinel s) = sentinel_text s"
| "error_text (ErrorsNew t) = t"
| "error_text (Errorf ss) = concat (map seg_text ss)"
| "error_text (ErrorsJoin es) = Join (map error_text es) [char_of (10::nat)]"
| "error_text (PumpError r op c) =
     PumpError_Error r op (case c of None \<Rightarrow> None | Some e \<Rightarrow> Some (error_text e))"
| "error_text (LinkError r c) = LinkError_Error r (case c of None \<Rightarrow> None | Some e \<Rightarrow> Some (error_text e))"
| "error_text (PreflightError r c) =
     PreflightError_Error r (case c of None \<Rightarrow> None | Some e \<Rightarrow> Some (error_text e))"
| "error_text (ClangNotFoundError p e) = ClangNotFoundError_Error p (error_text e)"
| "error_text (UDPBufUnreadableError p e) = UDPBufUnreadableError_Error p (error_text e)"
| "error_text UnsupportedPlatformError = UnsupportedPlatformError_Error"
| "error_text (Foreign t _) = t"
| "seg_text (Txt t) = t"
| "seg_text (W e) = error_text e"
| "seg_text (V e) = error_text e"

text \<open>
  \<^verbatim>\<open>Unwrap\<close>: the errors an error value wraps. A \<^verbatim>\<open>%v\<close> operand is text only and is
  not wrapped.
\<close>

fun unwrap :: "go_error \<Rightarrow> go_error list" where
  "unwrap (Errorf ss) = concat (map (\<lambda>s. case s of W e \<Rightarrow> [e] | _ \<Rightarrow> []) ss)"
| "unwrap (ErrorsJoin es) = es"
| "unwrap (PumpError _ _ c) = (case c of None \<Rightarrow> [] | Some e \<Rightarrow> [e])"
| "unwrap (LinkError _ c) = (case c of None \<Rightarrow> [] | Some e \<Rightarrow> [e])"
| "unwrap (PreflightError _ c) = (case c of None \<Rightarrow> [] | Some e \<Rightarrow> [e])"
| "unwrap (ClangNotFoundError _ e) = [e]"
| "unwrap (UDPBufUnreadableError _ e) = [e]"
| "unwrap _ = []"

lemma unwrap_size: "e' \<in> set (unwrap e) \<Longrightarrow> size e' < size e"
proof (cases e)
  case (Errorf ss)
  moreover have "W e' \<in> set ss \<Longrightarrow> size e' < Suc (size_list size ss)"
    using size_list_estimation' [of "W e'" ss "Suc (size e')" size] by simp
  ultimately show "e' \<in> set (unwrap e) \<Longrightarrow> size e' < size e"
    by (auto split: seg.splits)
next
  case (ErrorsJoin es)
  then show "e' \<in> set (unwrap e) \<Longrightarrow> size e' < size e"
    using size_list_estimation' [of e' es "size e'" size] by auto
qed (auto split: option.splits)

text \<open>\<^verbatim>\<open>errors.Is(err, target)\<close> with a sentinel as the target.\<close>

function errors_Is :: "go_error \<Rightarrow> sentinel \<Rightarrow> bool" where
  "errors_Is e t =
     ((case e of Sentinel s \<Rightarrow> s = t | Foreign _ ts \<Rightarrow> t \<in> set ts | _ \<Rightarrow> False)
      \<or> (\<exists>e' \<in> set (unwrap e). errors_Is e' t))"
  by pat_completeness auto
termination
  by (relation "measure (size \<circ> fst)") (auto simp: unwrap_size)

text \<open>
  \<^verbatim>\<open>errors.As\<close>: the first error of the tree, in pre-order, for which \<open>p\<close> holds.
\<close>

function errors_As :: "(go_error \<Rightarrow> bool) \<Rightarrow> go_error \<Rightarrow> go_error option" where
  "errors_As p e =
     (if p e then Some e
      else (case filter (\<lambda>r. r \<noteq> None) (map (errors_As p) (unwrap e)) of
              [] \<Rightarrow> None | r # _ \<Rightarrow> r))"
  by pat_completeness auto
termination
  by (relation "measure (size \<circ> snd)") (auto simp: unwrap_size)

declare errors_Is.simps [simp del] errors_As.simps [simp del]

section \<open>Evaluation rules\<close>

lemma errors_Is_simps [simp, err_simps]:
  "errors_Is (Sentinel s) t \<longleftrightarrow> s = t"
  "errors_Is (ErrorsNew m) t \<longleftrightarrow> False"
  "errors_Is (Foreign m ts) t \<longleftrightarrow> t \<in> set ts"
  "errors_Is (PumpError r op c) t \<longleftrightarrow> (case c of None \<Rightarrow> False | Some e \<Rightarrow> errors_Is e t)"
  "errors_Is (LinkError r c) t \<longleftrightarrow> (case c of None \<Rightarrow> False | Some e \<Rightarrow> errors_Is e t)"
  "errors_Is (PreflightError r c) t \<longleftrightarrow> (case c of None \<Rightarrow> False | Some e \<Rightarrow> errors_Is e t)"
  "errors_Is (ClangNotFoundError p e) t \<longleftrightarrow> errors_Is e t"
  "errors_Is (UDPBufUnreadableError p e) t \<longleftrightarrow> errors_Is e t"
  "errors_Is UnsupportedPlatformError t \<longleftrightarrow> False"
  by (simp_all add: errors_Is.simps [of "Sentinel s" t] errors_Is.simps [of "ErrorsNew m" t]
      errors_Is.simps [of "Foreign m ts" t] errors_Is.simps [of "PumpError r op c" t]
      errors_Is.simps [of "LinkError r c" t] errors_Is.simps [of "PreflightError r c" t]
      errors_Is.simps [of "ClangNotFoundError p e" t]
      errors_Is.simps [of "UDPBufUnreadableError p e" t]
      errors_Is.simps [of UnsupportedPlatformError t] split: option.splits)

lemma errors_Is_Errorf [simp, err_simps]:
  "errors_Is (Errorf []) t \<longleftrightarrow> False"
  "errors_Is (Errorf (Txt m # ss)) t \<longleftrightarrow> errors_Is (Errorf ss) t"
  "errors_Is (Errorf (V e # ss)) t \<longleftrightarrow> errors_Is (Errorf ss) t"
  "errors_Is (Errorf (W e # ss)) t \<longleftrightarrow> errors_Is e t \<or> errors_Is (Errorf ss) t"
  by (simp_all add: errors_Is.simps [of "Errorf _"])

lemma errors_As_self [simp]: "p e \<Longrightarrow> errors_As p e = Some e"
  by (simp add: errors_As.simps)

lemma errors_As_leaf [simp]: "\<not> p e \<Longrightarrow> unwrap e = [] \<Longrightarrow> errors_As p e = None"
  by (simp add: errors_As.simps)

lemma errors_As_single [simp]: "\<not> p e \<Longrightarrow> unwrap e = [e'] \<Longrightarrow> errors_As p e = errors_As p e'"
  by (subst errors_As.simps) (simp split: option.splits)

text \<open>What \<^verbatim>\<open>errors.As\<close> finds satisfies the test, and it finds something exactly when some
  error of the tree does.\<close>

lemma errors_As_Some: "errors_As p e = Some x \<Longrightarrow> p x"
proof (induction p e rule: errors_As.induct)
  case (1 p e)
  show ?case
  proof (cases "p e")
    case True
    with 1 show ?thesis by simp
  next
    case False
    with 1(2) obtain rs where "filter (\<lambda>r. r \<noteq> None) (map (errors_As p) (unwrap e)) = Some x # rs"
      by (subst (asm) errors_As.simps) (auto split: list.splits)
    then have "Some x \<in> set (filter (\<lambda>r. r \<noteq> None) (map (errors_As p) (unwrap e)))" by simp
    then obtain e' where "e' \<in> set (unwrap e)" "errors_As p e' = Some x" by auto
    with 1(1) False show ?thesis by blast
  qed
qed

section \<open>The contract of the typed errors\<close>

text \<open>
  \<^verbatim>\<open>PumpError\<close>, \<^verbatim>\<open>LinkError\<close> and \<^verbatim>\<open>PreflightError\<close> share one shape: a
  constructor with a stable Reason and an optional cause, a test \<open>is_err\<close> and an extractor
  \<open>reason_of\<close> that both go through \<^verbatim>\<open>errors.As\<close>.
\<close>

locale typed_error =
  fixes disc :: "go_error \<Rightarrow> bool"
    and reason_field :: "go_error \<Rightarrow> string"
    and is_err :: "go_error option \<Rightarrow> bool"
    and reason_of :: "go_error option \<Rightarrow> string"
  assumes is_err_As: "is_err err \<longleftrightarrow> (\<exists>e. err = Some e \<and> errors_As disc e \<noteq> None)"
    and reason_As: "reason_of err =
      (case err of None \<Rightarrow> [] | Some e \<Rightarrow>
         (case errors_As disc e of None \<Rightarrow> [] | Some x \<Rightarrow> reason_field x))"
begin

lemma reason_direct: "disc e \<Longrightarrow> reason_of (Some e) = reason_field e \<and> is_err (Some e)"
  by (simp add: reason_As is_err_As)

lemma reason_wrapped:
  "\<not> disc e \<Longrightarrow> unwrap e = [e'] \<Longrightarrow>
   reason_of (Some e) = reason_of (Some e') \<and> is_err (Some e) = is_err (Some e')"
  by (simp add: reason_As is_err_As)

lemma reason_nil: "reason_of None = [] \<and> \<not> is_err None"
  by (simp add: reason_As is_err_As)

lemma reason_other: "\<not> is_err err \<Longrightarrow> reason_of err = []"
  by (auto simp: reason_As is_err_As split: option.splits)

end

end
