(* ===== verification/Go_IO.thy ===== *)
theory Go_IO
  imports Go_Errors
begin

text \<open>
  The byte streams the wire layer runs on. An \<^verbatim>\<open>io.Reader\<close> is the list of chunks its
  successive \<^verbatim>\<open>Read\<close> calls deliver, the error it ends with, and whether that error comes
  together with the last chunk or on the call after it (the contract of \<^verbatim>\<open>io.Reader\<close>
  allows both). An \<^verbatim>\<open>io.Writer\<close> is the bytes accepted so far and a script of faults: each
  \<^verbatim>\<open>Write\<close> consumes one entry, \<open>None\<close> for a complete write, \<open>Some (k, e)\<close> for one that
  stops after \<open>k\<close> bytes with error \<open>e\<close>; when the script is used up every write is complete.
  On top: \<^verbatim>\<open>io.ReadFull\<close> with its loop, the sequencing of fallible reads and writes, and
  the compositional specifications \<open>decodes\<close>, \<open>fails\<close> and \<open>chunk_blind\<close> (readers) and \<open>emits\<close>
  (writers) in which the codec is verified. The locale \<open>record_format\<close> is the contract between
  the encoder and the decoder of one record.
\<close>

section \<open>Readers\<close>

record io_reader =
  rd_chunks :: "bytes list"
  rd_err :: go_error
  rd_eager :: bool

text \<open>One \<^verbatim>\<open>Read(p)\<close> with \<^verbatim>\<open>len(p) = n\<close>, for \<open>n > 0\<close>.\<close>

definition io_Read :: "io_reader \<Rightarrow> nat \<Rightarrow> bytes \<times> go_error option \<times> io_reader" where
  "io_Read r n =
     (case rd_chunks r of
        [] \<Rightarrow> ([], Some (rd_err r), r)
      | c # cs \<Rightarrow>
          if length c \<le> n
          then (c, (if cs = [] \<and> rd_eager r then Some (rd_err r) else None), r\<lparr>rd_chunks := cs\<rparr>)
          else (take n c, None, r\<lparr>rd_chunks := drop n c # cs\<rparr>))"

text \<open>
  The loop of \<^verbatim>\<open>io.ReadAtLeast\<close> (called by \<^verbatim>\<open>io.ReadFull\<close> with the buffer's length
  as the minimum): \<open>need\<close> bytes are missing, \<open>got\<close> were read.
\<close>

function ReadAtLeast :: "io_reader \<Rightarrow> nat \<Rightarrow> bytes \<Rightarrow> bytes \<times> go_error option \<times> io_reader" where
  "ReadAtLeast r need got =
     (if need = 0 then (got, None, r)
      else (case io_Read r need of
              (bs, Some e, r') \<Rightarrow> (got @ bs, Some e, r')
            | (bs, None, r') \<Rightarrow> ReadAtLeast r' (need - length bs) (got @ bs)))"
  by pat_completeness auto
termination
  by (relation "measure (\<lambda>(r, need, got). need + length (rd_chunks r))")
    (auto simp: io_Read_def split: list.splits if_splits)

declare ReadAtLeast.simps [simp del]

definition io_ReadFull :: "io_reader \<Rightarrow> nat \<Rightarrow> (go_error + bytes) \<times> io_reader" where
  "io_ReadFull r n =
     (case ReadAtLeast r n [] of
        (bs, err, r') \<Rightarrow>
          if n \<le> length bs then (Inr bs, r')
          else (case err of
                  None \<Rightarrow> (Inr bs, r')
                | Some e \<Rightarrow>
                    if bs \<noteq> [] \<and> e = Sentinel EOF then (Inl (Sentinel ErrUnexpectedEOF), r')
                    else (Inl e, r')))"

text \<open>The bytes a reader has still to deliver.\<close>

definition rd_bytes :: "io_reader \<Rightarrow> bytes" where
  "rd_bytes r = concat (rd_chunks r)"

section \<open>Sequencing of fallible reads\<close>

type_synonym 'a rd = "io_reader \<Rightarrow> (go_error + 'a) \<times> io_reader"

definition rd_return :: "'a \<Rightarrow> 'a rd" where
  "rd_return x = (\<lambda>r. (Inr x, r))"

definition rd_fail :: "go_error \<Rightarrow> 'a rd" where
  "rd_fail e = (\<lambda>r. (Inl e, r))"

definition rd_bind :: "'a rd \<Rightarrow> ('a \<Rightarrow> 'b rd) \<Rightarrow> 'b rd" where
  "rd_bind m f = (\<lambda>r. case m r of (Inl e, r') \<Rightarrow> (Inl e, r') | (Inr x, r') \<Rightarrow> f x r')"

text \<open>\<open>rd_full n wrap\<close>: \<^verbatim>\<open>io.ReadFull\<close> into an \<open>n\<close>-byte buffer, an error rewritten by \<open>wrap\<close>.\<close>

definition rd_full :: "nat \<Rightarrow> (go_error \<Rightarrow> go_error) \<Rightarrow> bytes rd" where
  "rd_full n wrap = (\<lambda>r. case io_ReadFull r n of (Inl e, r') \<Rightarrow> (Inl (wrap e), r') | (Inr bs, r') \<Rightarrow> (Inr bs, r'))"

definition rd_map_error :: "(go_error \<Rightarrow> go_error) \<Rightarrow> 'a rd \<Rightarrow> 'a rd" where
  "rd_map_error wrap m = (\<lambda>r. case m r of (Inl e, r') \<Rightarrow> (Inl (wrap e), r') | (Inr x, r') \<Rightarrow> (Inr x, r'))"

section \<open>Writers\<close>

record io_writer =
  wr_out :: bytes
  wr_faults :: "(nat \<times> go_error) option list"

definition io_Write :: "bytes \<Rightarrow> io_writer \<Rightarrow> go_error option \<times> io_writer" where
  "io_Write p w =
     (case wr_faults w of
        [] \<Rightarrow> (None, w\<lparr>wr_out := wr_out w @ p\<rparr>)
      | None # fs \<Rightarrow> (None, w\<lparr>wr_out := wr_out w @ p, wr_faults := fs\<rparr>)
      | Some (k, e) # fs \<Rightarrow> (Some e, w\<lparr>wr_out := wr_out w @ take k p, wr_faults := fs\<rparr>))"

type_synonym wr = "io_writer \<Rightarrow> go_error option \<times> io_writer"

text \<open>\<open>wr_then a b\<close>: run \<open>a\<close>, return its error if it has one, run \<open>b\<close> otherwise.\<close>

definition wr_then :: "wr \<Rightarrow> wr \<Rightarrow> wr" where
  "wr_then a b = (\<lambda>w. case a w of (Some e, w') \<Rightarrow> (Some e, w') | (None, w') \<Rightarrow> b w')"

definition wr_fail :: "go_error \<Rightarrow> wr" where
  "wr_fail e = (\<lambda>w. (Some e, w))"

definition wr_ok :: wr where
  "wr_ok = (\<lambda>w. (None, w))"

definition wr_map_error :: "(go_error \<Rightarrow> go_error) \<Rightarrow> wr \<Rightarrow> wr" where
  "wr_map_error wrap m = (\<lambda>w. case m w of (Some e, w') \<Rightarrow> (Some (wrap e), w') | (None, w') \<Rightarrow> (None, w'))"

section \<open>ReadFull reads a prefix of the remaining bytes\<close>

lemma rd_bytes_simps [simp]:
  "rd_bytes (r\<lparr>rd_chunks := cs\<rparr>) = concat cs"
  by (simp add: rd_bytes_def)

text \<open>The two readers deliver the same bytes and end with the same error.\<close>

definition rd_same :: "io_reader \<Rightarrow> io_reader \<Rightarrow> bool" where
  "rd_same r r' \<longleftrightarrow> rd_bytes r = rd_bytes r' \<and> rd_err r = rd_err r'"

text \<open>\<open>rd_after r k r'\<close>: the reader \<open>r'\<close> is \<open>r\<close> with \<open>k\<close> bytes consumed.\<close>

definition rd_after :: "io_reader \<Rightarrow> nat \<Rightarrow> io_reader \<Rightarrow> bool" where
  "rd_after r k r' \<longleftrightarrow> rd_bytes r' = drop k (rd_bytes r) \<and> rd_err r' = rd_err r"

lemma ReadAtLeast_spec:
  "ReadAtLeast r need got = (out, err, r') \<Longrightarrow>
   out = got @ take need (rd_bytes r) \<and> rd_after r need r' \<and>
   (if need \<le> length (rd_bytes r) then True else err = Some (rd_err r))"
proof (induction r need got rule: ReadAtLeast.induct)
  case (1 r need got)
  show ?case
  proof (cases "need = 0")
    case True
    with 1(2) show ?thesis by (subst (asm) ReadAtLeast.simps) (auto simp: rd_after_def)
  next
    case False
    obtain bs e r1 where rd: "io_Read r need = (bs, e, r1)" by (metis prod_cases3)
    then have len: "bs = take need (rd_bytes r) \<or> length bs < need \<and> prefix bs (rd_bytes r)"
      and rest: "rd_bytes r1 = drop (length bs) (rd_bytes r)" "rd_err r1 = rd_err r"
      and eof: "e \<noteq> None \<Longrightarrow> e = Some (rd_err r) \<and> bs = rd_bytes r \<and> length bs \<le> need"
      by (auto simp: io_Read_def rd_bytes_def split: list.splits if_splits)
    show ?thesis
    proof (cases e)
      case None
      with rd False 1(2) have rec: "ReadAtLeast r1 (need - length bs) (got @ bs) = (out, err, r')"
        by (subst (asm) ReadAtLeast.simps) auto
      have IH: "out = (got @ bs) @ take (need - length bs) (rd_bytes r1) \<and>
          rd_after r1 (need - length bs) r' \<and>
          (if need - length bs \<le> length (rd_bytes r1) then True else err = Some (rd_err r1))"
        using 1(1) [OF False rd [symmetric]] None rec rd by simp
      have bs: "length bs \<le> need" "bs @ rd_bytes r1 = rd_bytes r"
        using len rest by (auto elim!: prefixE simp: min_def)
      then have "bs @ take (need - length bs) (rd_bytes r1) = take need (rd_bytes r)"
        by (metis take_all take_append)
      with IH rest bs show ?thesis by (auto simp: rd_after_def split: if_splits)
    next
      case (Some e')
      with rd False 1(2) have "out = got @ bs" "err = Some e'" "r' = r1"
        by (subst (asm) ReadAtLeast.simps, auto)+
      with eof Some rest show ?thesis by (auto simp: rd_after_def)
    qed
  qed
qed

lemma io_ReadFull_enough:
  assumes "n \<le> length (rd_bytes r)"
  shows "\<exists>r'. io_ReadFull r n = (Inr (take n (rd_bytes r)), r') \<and> rd_after r n r'"
proof -
  obtain out err r' where "ReadAtLeast r n [] = (out, err, r')" by (metis prod_cases3)
  with ReadAtLeast_spec [OF this] assms show ?thesis by (auto simp: io_ReadFull_def)
qed

text \<open>The error of a short read: the reader's own error when nothing was read or when that
  error is not \<^verbatim>\<open>io.EOF\<close>, \<^verbatim>\<open>io.ErrUnexpectedEOF\<close> otherwise.\<close>

definition short_error :: "io_reader \<Rightarrow> go_error" where
  "short_error r =
     (if rd_bytes r \<noteq> [] \<and> rd_err r = Sentinel EOF then Sentinel ErrUnexpectedEOF else rd_err r)"

lemma io_ReadFull_short:
  assumes "length (rd_bytes r) < n"
  shows "\<exists>r'. io_ReadFull r n = (Inl (short_error r), r') \<and> rd_after r n r'"
proof -
  obtain out err r' where "ReadAtLeast r n [] = (out, err, r')" by (metis prod_cases3)
  with ReadAtLeast_spec [OF this] assms show ?thesis
    by (auto simp: io_ReadFull_def short_error_def)
qed

lemma io_ReadFull_Inr:
  "io_ReadFull r n = (Inr bs, r') \<Longrightarrow>
   bs = take n (rd_bytes r) \<and> n \<le> length (rd_bytes r) \<and> rd_after r n r'"
  using io_ReadFull_enough [of n r] io_ReadFull_short [of r n]
  by (cases "n \<le> length (rd_bytes r)") auto

section \<open>Compositional specifications of readers\<close>

text \<open>\<open>decodes m bs x\<close>: wherever the next bytes are \<open>bs\<close>, \<open>m\<close> consumes exactly them and returns \<open>x\<close>.\<close>

definition decodes :: "'a rd \<Rightarrow> bytes \<Rightarrow> 'a \<Rightarrow> bool" where
  "decodes m bs x \<longleftrightarrow>
     (\<forall>r. prefix bs (rd_bytes r) \<longrightarrow> (\<exists>r'. m r = (Inr x, r') \<and> rd_after r (length bs) r'))"

text \<open>\<open>accepts m P\<close>: whenever \<open>m\<close> returns \<open>x\<close>, it has consumed a prefix \<open>bs\<close> with \<open>P x bs\<close>.\<close>

definition accepts :: "'a rd \<Rightarrow> ('a \<Rightarrow> bytes \<Rightarrow> bool) \<Rightarrow> bool" where
  "accepts m P \<longleftrightarrow>
     (\<forall>r x r'. m r = (Inr x, r') \<longrightarrow>
        (\<exists>bs. P x bs \<and> prefix bs (rd_bytes r) \<and> rd_after r (length bs) r'))"

text \<open>\<open>chunk_blind m\<close>: the result of \<open>m\<close> depends on the bytes delivered and the final error only,
  not on how the bytes are cut into chunks.\<close>

definition chunk_blind :: "'a rd \<Rightarrow> bool" where
  "chunk_blind m \<longleftrightarrow>
     (\<forall>r1 r2. rd_same r1 r2 \<longrightarrow> fst (m r1) = fst (m r2) \<and> rd_same (snd (m r1)) (snd (m r2)))"

lemma rd_after_trans: "rd_after r j r' \<Longrightarrow> rd_after r' k r'' \<Longrightarrow> rd_after r (j + k) r''"
  by (simp add: rd_after_def add.commute)

lemma decodes_return [step_intros]: "bs = [] \<Longrightarrow> x = y \<Longrightarrow> decodes (rd_return x) bs y"
  by (simp add: decodes_def rd_return_def rd_after_def)

lemma decodes_full [step_intros]: "length bs = n \<Longrightarrow> bs = bs' \<Longrightarrow> decodes (rd_full n wrap) bs bs'"
  unfolding decodes_def
proof (intro allI impI)
  fix r assume "length bs = n" "bs = bs'" "prefix bs (rd_bytes r)"
  then have "n \<le> length (rd_bytes r)" "take n (rd_bytes r) = bs"
    by (auto simp: prefix_def)
  then show "\<exists>r'. rd_full n wrap r = (Inr bs', r') \<and> rd_after r (length bs) r'"
    using io_ReadFull_enough [of n r] \<open>bs = bs'\<close> \<open>length bs = n\<close> by (auto simp: rd_full_def)
qed

lemma decodes_bind:
  assumes "decodes m bs x" and "decodes (f x) cs y"
  shows "decodes (rd_bind m f) (bs @ cs) y"
  unfolding decodes_def
proof (intro allI impI)
  fix r assume p: "prefix (bs @ cs) (rd_bytes r)"
  then have "prefix bs (rd_bytes r)" by (auto simp: prefix_def)
  then obtain r1 where r1: "m r = (Inr x, r1)" "rd_after r (length bs) r1"
    using assms(1) by (auto simp: decodes_def)
  with p have "prefix cs (rd_bytes r1)" by (auto simp: rd_after_def prefix_def)
  then obtain r2 where "f x r1 = (Inr y, r2)" "rd_after r1 (length cs) r2"
    using assms(2) by (auto simp: decodes_def)
  with r1 show "\<exists>r'. rd_bind m f r = (Inr y, r') \<and> rd_after r (length (bs @ cs)) r'"
    by (auto simp: rd_bind_def intro: rd_after_trans)
qed

lemma decodes_bind_eq [step_intros]:
  "decodes m bs x \<Longrightarrow> decodes (f x) cs y \<Longrightarrow> ds = bs @ cs \<Longrightarrow> decodes (rd_bind m f) ds y"
  by (simp add: decodes_bind)

lemma decodes_map_error [step_intros]: "decodes m bs x \<Longrightarrow> decodes (rd_map_error wrap m) bs x"
  by (fastforce simp: decodes_def rd_map_error_def)

lemma decodes_apply:
  assumes "decodes m bs x" and "rd_bytes r = bs @ rest"
  shows "\<exists>r'. m r = (Inr x, r') \<and> rd_bytes r' = rest \<and> rd_err r' = rd_err r"
proof -
  from assms have "prefix bs (rd_bytes r)" by simp
  then obtain r' where "m r = (Inr x, r')" "rd_after r (length bs) r'"
    using assms(1) by (auto simp: decodes_def)
  with assms(2) show ?thesis by (auto simp: rd_after_def)
qed

text \<open>
  \<open>truncates m bs Q\<close>: on a stream that ends with \<^verbatim>\<open>io.EOF\<close> inside \<open>bs\<close>, \<open>m\<close> returns an error
  for which \<open>Q\<close> holds.
\<close>

definition truncates :: "'a rd \<Rightarrow> bytes \<Rightarrow> (go_error \<Rightarrow> bool) \<Rightarrow> bool" where
  "truncates m bs Q \<longleftrightarrow>
     (\<forall>r. strict_prefix (rd_bytes r) bs \<and> rd_err r = Sentinel EOF \<longrightarrow> (\<exists>e r'. m r = (Inl e, r') \<and> Q e))"

lemma truncates_return [step_intros]: "truncates (rd_return x) [] Q"
  by (simp add: truncates_def)

lemma truncates_full [step_intros]:
  assumes "length bs = n" "Q (wrap (Sentinel EOF))" "Q (wrap (Sentinel ErrUnexpectedEOF))"
  shows "truncates (rd_full n wrap) bs Q"
  unfolding truncates_def
proof (intro allI impI)
  fix r assume "strict_prefix (rd_bytes r) bs \<and> rd_err r = Sentinel EOF"
  then have "length (rd_bytes r) < n" "rd_err r = Sentinel EOF"
    using assms(1) prefix_length_less by auto
  then show "\<exists>e r'. rd_full n wrap r = (Inl e, r') \<and> Q e"
    using io_ReadFull_short [of r n] assms(2,3) by (auto simp: rd_full_def short_error_def)
qed

lemma truncates_bind:
  assumes m: "truncates m bs Q" "decodes m bs x" and f: "truncates (f x) cs Q"
  shows "truncates (rd_bind m f) (bs @ cs) Q"
  unfolding truncates_def
proof (intro allI impI)
  fix r assume r: "strict_prefix (rd_bytes r) (bs @ cs) \<and> rd_err r = Sentinel EOF"
  then consider "strict_prefix (rd_bytes r) bs" | ds where "rd_bytes r = bs @ ds" "strict_prefix ds cs"
    by (cases "rd_bytes r = bs") (auto simp: strict_prefix_def prefix_append)
  then show "\<exists>e r'. rd_bind m f r = (Inl e, r') \<and> Q e"
  proof cases
    case 1
    with m(1) r show ?thesis by (fastforce simp: truncates_def rd_bind_def)
  next
    case 2
    from decodes_apply [OF m(2) 2(1)] obtain r' where
      r': "m r = (Inr x, r')" "rd_bytes r' = ds" "rd_err r' = rd_err r" by blast
    with 2 r f have "\<exists>e r''. f x r' = (Inl e, r'') \<and> Q e" by (auto simp: truncates_def)
    with r' show ?thesis by (auto simp: rd_bind_def)
  qed
qed

lemma truncates_bind_eq [step_intros]:
  "truncates m bs Q \<Longrightarrow> decodes m bs x \<Longrightarrow> truncates (f x) cs Q \<Longrightarrow> ds = bs @ cs \<Longrightarrow>
   truncates (rd_bind m f) ds Q"
  by (simp add: truncates_bind)

lemma truncates_map_error [step_intros]:
  "truncates m bs (\<lambda>e. Q (wrap e)) \<Longrightarrow> truncates (rd_map_error wrap m) bs Q"
  by (fastforce simp: truncates_def rd_map_error_def)

lemma accepts_return [step_intros]: "P x [] \<Longrightarrow> accepts (rd_return x) P"
  by (auto simp: accepts_def rd_return_def rd_after_def intro!: exI [of _ "[]"])

lemma accepts_fail [step_intros]: "accepts (rd_fail e) P"
  by (simp add: accepts_def rd_fail_def)

lemma accepts_full [step_intros]:
  "(\<And>bs. length bs = n \<Longrightarrow> P bs bs) \<Longrightarrow> accepts (rd_full n wrap) P"
  unfolding accepts_def rd_full_def
proof (intro allI impI)
  fix r x r'
  assume P: "\<And>bs. length bs = n \<Longrightarrow> P bs bs"
    and "(case io_ReadFull r n of (Inl e, r') \<Rightarrow> (Inl (wrap e), r') | (Inr bs, r') \<Rightarrow> (Inr bs, r'))
      = (Inr x, r')"
  then have "io_ReadFull r n = (Inr x, r')" by (auto split: prod.splits sum.splits)
  from io_ReadFull_Inr [OF this] show "\<exists>bs. P x bs \<and> prefix bs (rd_bytes r) \<and> rd_after r (length bs) r'"
    by (auto intro!: exI [of _ x] P simp: take_is_prefix min_def)
qed

lemma accepts_bind:
  assumes m: "accepts m Q" and f: "\<And>x bs. Q x bs \<Longrightarrow> accepts (f x) (\<lambda>y cs. P y (bs @ cs))"
  shows "accepts (rd_bind m f) P"
  unfolding accepts_def
proof (intro allI impI)
  fix r y r2 assume "rd_bind m f r = (Inr y, r2)"
  then obtain x r1 where 1: "m r = (Inr x, r1)" and 2: "f x r1 = (Inr y, r2)"
    by (auto simp: rd_bind_def split: prod.splits sum.splits)
  from m 1 obtain bs where bs: "Q x bs" "prefix bs (rd_bytes r)" "rd_after r (length bs) r1"
    unfolding accepts_def by blast
  from f [OF bs(1)] 2 obtain cs where cs: "P y (bs @ cs)" "prefix cs (rd_bytes r1)" "rd_after r1 (length cs) r2"
    unfolding accepts_def by blast
  from bs(2,3) cs(2) have "prefix (bs @ cs) (rd_bytes r)" by (auto simp: rd_after_def prefix_def)
  moreover from bs(3) cs(3) have "rd_after r (length (bs @ cs)) r2" by (simp add: rd_after_trans)
  ultimately show "\<exists>bs. P y bs \<and> prefix bs (rd_bytes r) \<and> rd_after r (length bs) r2"
    using cs(1) by blast
qed

lemma accepts_map_error [step_intros]: "accepts m P \<Longrightarrow> accepts (rd_map_error wrap m) P"
  by (fastforce simp: accepts_def rd_map_error_def split: prod.splits sum.splits)

lemma chunk_blindD:
  "chunk_blind m \<Longrightarrow> rd_same r1 r2 \<Longrightarrow> fst (m r1) = fst (m r2) \<and> rd_same (snd (m r1)) (snd (m r2))"
  by (simp add: chunk_blind_def)

lemma chunk_blind_return [step_intros]: "chunk_blind (rd_return x)"
  by (simp add: chunk_blind_def rd_return_def)

lemma chunk_blind_fail [step_intros]: "chunk_blind (rd_fail e)"
  by (simp add: chunk_blind_def rd_fail_def)

lemma chunk_blind_full [step_intros]: "chunk_blind (rd_full n wrap)"
  unfolding chunk_blind_def
proof (intro allI impI)
  fix r1 r2 assume s: "rd_same r1 r2"
  then have e: "short_error r1 = short_error r2" by (simp add: rd_same_def short_error_def)
  show "fst (rd_full n wrap r1) = fst (rd_full n wrap r2) \<and>
      rd_same (snd (rd_full n wrap r1)) (snd (rd_full n wrap r2))"
    using s e io_ReadFull_enough [of n r1] io_ReadFull_short [of r1 n]
      io_ReadFull_enough [of n r2] io_ReadFull_short [of r2 n]
    by (cases "n \<le> length (rd_bytes r1)") (auto simp: rd_full_def rd_same_def rd_after_def)
qed

lemma chunk_blind_bind [step_intros]:
  assumes "chunk_blind m" and "\<And>x. chunk_blind (f x)"
  shows "chunk_blind (rd_bind m f)"
  unfolding chunk_blind_def
proof (intro allI impI)
  fix r1 r2 assume "rd_same r1 r2"
  with assms(1) have "fst (m r1) = fst (m r2)" "rd_same (snd (m r1)) (snd (m r2))"
    by (auto simp: chunk_blind_def)
  then show "fst (rd_bind m f r1) = fst (rd_bind m f r2) \<and>
      rd_same (snd (rd_bind m f r1)) (snd (rd_bind m f r2))"
    using assms(2) by (auto simp: rd_bind_def chunk_blind_def split: prod.splits sum.splits)
qed

lemma chunk_blind_map_error [step_intros]:
  assumes "chunk_blind m"
  shows "chunk_blind (rd_map_error wrap m)"
  unfolding chunk_blind_def
proof (intro allI impI)
  fix r1 r2 assume "rd_same r1 r2"
  with assms have "fst (m r1) = fst (m r2)" "rd_same (snd (m r1)) (snd (m r2))"
    by (auto simp: chunk_blind_def)
  then show "fst (rd_map_error wrap m r1) = fst (rd_map_error wrap m r2) \<and>
      rd_same (snd (rd_map_error wrap m r1)) (snd (rd_map_error wrap m r2))"
    by (auto simp: rd_map_error_def split: prod.splits sum.splits)
qed

lemma chunk_blind_if [step_intros]: "chunk_blind a \<Longrightarrow> chunk_blind b \<Longrightarrow> chunk_blind (if c then a else b)"
  by simp

text \<open>\<open>raises m P\<close>: every error \<open>m\<close> returns satisfies \<open>P\<close>.\<close>

definition raises :: "'a rd \<Rightarrow> (go_error \<Rightarrow> bool) \<Rightarrow> bool" where
  "raises m P \<longleftrightarrow> (\<forall>r e r'. m r = (Inl e, r') \<longrightarrow> P e)"

lemma raises_return [step_intros]: "raises (rd_return x) P"
  by (simp add: raises_def rd_return_def)

lemma raises_fail [step_intros]: "P e \<Longrightarrow> raises (rd_fail e) P"
  by (simp add: raises_def rd_fail_def)

lemma raises_full [step_intros]: "(\<And>e. P (wrap e)) \<Longrightarrow> raises (rd_full n wrap) P"
  by (auto simp: raises_def rd_full_def split: prod.splits sum.splits)

lemma raises_bind [step_intros]: "raises m P \<Longrightarrow> (\<And>x. raises (f x) P) \<Longrightarrow> raises (rd_bind m f) P"
  by (auto simp: raises_def rd_bind_def split: prod.splits sum.splits)

lemma raises_map_error [step_intros]: "(\<And>e. P (wrap e)) \<Longrightarrow> raises (rd_map_error wrap m) P"
  by (auto simp: raises_def rd_map_error_def split: prod.splits sum.splits)

lemma raises_if [step_intros]: "raises a P \<Longrightarrow> raises b P \<Longrightarrow> raises (if c then a else b) P"
  by simp

text \<open>\<open>consumes m n\<close>: whatever the outcome, \<open>m\<close> takes at most \<open>n\<close> bytes off the front of its stream.\<close>

definition consumes :: "'a rd \<Rightarrow> nat \<Rightarrow> bool" where
  "consumes m n \<longleftrightarrow> (\<forall>r. \<exists>p. rd_bytes r = p @ rd_bytes (snd (m r)) \<and> length p \<le> n)"

lemma consumes_return: "consumes (rd_return x) n"
  by (simp add: consumes_def rd_return_def)

lemma consumes_fail: "consumes (rd_fail e) n"
  by (simp add: consumes_def rd_fail_def)

lemma consumes_full:
  assumes "n \<le> k"
  shows "consumes (rd_full n wrap) k"
  unfolding consumes_def
proof
  fix r
  show "\<exists>p. rd_bytes r = p @ rd_bytes (snd (rd_full n wrap r)) \<and> length p \<le> k"
  proof (cases "n \<le> length (rd_bytes r)")
    case True
    with io_ReadFull_enough [OF True] assms show ?thesis
      by (auto simp: rd_full_def rd_after_def intro!: exI [of _ "take n (rd_bytes r)"])
  next
    case False
    with io_ReadFull_short [of r n] assms show ?thesis by (auto simp: rd_full_def rd_after_def)
  qed
qed

lemma consumes_bind:
  assumes "consumes m a" "\<And>x. consumes (f x) b" "a + b \<le> c"
  shows "consumes (rd_bind m f) c"
  unfolding consumes_def
proof
  fix r
  obtain x r1 where 1: "m r = (x, r1)" by fastforce
  from assms(1) 1 obtain p where p: "rd_bytes r = p @ rd_bytes r1" "length p \<le> a" unfolding consumes_def by (metis snd_conv)
  show "\<exists>p. rd_bytes r = p @ rd_bytes (snd (rd_bind m f r)) \<and> length p \<le> c"
  proof (cases x)
    case (Inl e)
    with 1 p assms(3) show ?thesis by (simp add: rd_bind_def)
  next
    case (Inr y)
    from assms(2) [of y] obtain q where "rd_bytes r1 = q @ rd_bytes (snd (f y r1))" "length q \<le> b"
      unfolding consumes_def by blast
    with 1 Inr p assms(3) show ?thesis by (auto simp: rd_bind_def intro!: exI [of _ "p @ q"])
  qed
qed

lemma consumes_map_error: "consumes m n \<Longrightarrow> consumes (rd_map_error wrap m) n"
proof -
  have "snd (rd_map_error wrap m r) = snd (m r)" for r by (simp add: rd_map_error_def split: prod.split sum.split)
  then show "consumes m n \<Longrightarrow> consumes (rd_map_error wrap m) n" by (simp add: consumes_def)
qed

lemma consumes_mono: "consumes m n \<Longrightarrow> n \<le> k \<Longrightarrow> consumes m k"
  unfolding consumes_def by (meson order_trans)

lemma consumes_if: "consumes a n \<Longrightarrow> consumes b n \<Longrightarrow> consumes (if c then a else b) n"
  by simp

lemmas consumes_intros = consumes_if consumes_return consumes_fail consumes_full consumes_map_error

section \<open>Compositional specification of writers\<close>

text \<open>
  \<open>emits m bs e\<close>: \<open>m\<close> writes \<open>bs\<close> and returns \<open>e\<close> when no write fails; whatever the faults, it
  writes a prefix of \<open>bs\<close>, and if it returns no error or no fault occurred, all of \<open>bs\<close>.
\<close>

definition emits :: "wr \<Rightarrow> bytes \<Rightarrow> go_error option \<Rightarrow> bool" where
  "emits m bs e \<longleftrightarrow>
     (\<forall>w. wr_faults w = [] \<longrightarrow> m w = (e, w\<lparr>wr_out := wr_out w @ bs\<rparr>)) \<and>
     (\<forall>w. \<exists>p. wr_out (snd (m w)) = wr_out w @ p \<and> prefix p bs \<and>
        (fst (m w) = None \<longrightarrow> p = bs \<and> e = None))"

lemma emits_Write [step_intros]: "emits (io_Write p) p None"
  by (auto simp: emits_def io_Write_def take_is_prefix split: list.splits option.splits)

lemma emits_fail [step_intros]: "emits (wr_fail e) [] (Some e)"
  by (simp add: emits_def wr_fail_def)

lemma emits_ok [step_intros]: "emits wr_ok [] None"
  by (simp add: emits_def wr_ok_def)

lemma emits_faultfree: "emits m bs e \<Longrightarrow> wr_faults w = [] \<Longrightarrow> m w = (e, w\<lparr>wr_out := wr_out w @ bs\<rparr>)"
  by (simp add: emits_def)

lemma emits_prefix:
  "emits m bs e \<Longrightarrow>
   \<exists>p. wr_out (snd (m w)) = wr_out w @ p \<and> prefix p bs \<and> (fst (m w) = None \<longrightarrow> p = bs \<and> e = None)"
  by (simp add: emits_def)

lemma emits_then:
  assumes a: "emits a bs None" and b: "emits b cs e"
  shows "emits (wr_then a b) (bs @ cs) e"
  unfolding emits_def
proof (intro conjI allI impI)
  fix w :: io_writer assume w: "wr_faults w = []"
  then have "a w = (None, w\<lparr>wr_out := wr_out w @ bs\<rparr>)" by (rule emits_faultfree [OF a])
  moreover have "b (w\<lparr>wr_out := wr_out w @ bs\<rparr>) = (e, w\<lparr>wr_out := (wr_out w @ bs) @ cs\<rparr>)"
    using emits_faultfree [OF b, of "w\<lparr>wr_out := wr_out w @ bs\<rparr>"] w by simp
  ultimately show "wr_then a b w = (e, w\<lparr>wr_out := wr_out w @ bs @ cs\<rparr>)"
    by (simp add: wr_then_def)
next
  fix w :: io_writer
  obtain ea w1 where aw: "a w = (ea, w1)" by (cases "a w")
  from emits_prefix [OF a, of w] aw obtain p where
    p: "wr_out w1 = wr_out w @ p" "prefix p bs" "ea = None \<longrightarrow> p = bs" by auto
  show "\<exists>p. wr_out (snd (wr_then a b w)) = wr_out w @ p \<and> prefix p (bs @ cs) \<and>
      (fst (wr_then a b w) = None \<longrightarrow> p = bs @ cs \<and> e = None)"
  proof (cases ea)
    case (Some x)
    with aw p show ?thesis by (auto simp: wr_then_def)
  next
    case None
    from emits_prefix [OF b, of w1] obtain q where
      "wr_out (snd (b w1)) = wr_out w1 @ q" "prefix q cs" "fst (b w1) = None \<longrightarrow> q = cs \<and> e = None"
      by auto
    with aw p None show ?thesis by (auto simp: wr_then_def)
  qed
qed

lemma emits_then_eq [step_intros]:
  "emits a bs None \<Longrightarrow> emits b cs e \<Longrightarrow> ds = bs @ cs \<Longrightarrow> emits (wr_then a b) ds e"
  by (simp add: emits_then)

text \<open>When the first part fails on its own, the second never runs.\<close>

lemma emits_then_stop:
  assumes "emits a bs (Some e)"
  shows "emits (wr_then a b) bs (Some e)"
proof -
  have "fst (a w) \<noteq> None" for w using emits_prefix [OF assms, of w] by auto
  then have "wr_then a b w = a w" for w
    by (cases "a w") (metis (mono_tags, lifting) case_prod_conv fst_conv not_None_eq option.simps(5) wr_then_def)
  then have "wr_then a b = a" by (rule ext)
  with assms show ?thesis by simp
qed

lemma emits_map_error [step_intros]:
  "emits m bs e \<Longrightarrow> e' = map_option wrap e \<Longrightarrow> emits (wr_map_error wrap m) bs e'"
  unfolding emits_def wr_map_error_def
  by (auto split: prod.splits option.splits) (metis fst_conv snd_conv)+

section \<open>The contract of one record format\<close>

locale record_format =
  fixes enc :: "'a \<Rightarrow> bytes"
    and dec :: "'a rd"
    and wf :: "'a \<Rightarrow> bool"
  assumes dec_enc: "wf x \<Longrightarrow> decodes dec (enc x) x"
    and enc_dec: "accepts dec (\<lambda>x bs. wf x \<and> bs = enc x)"
begin

text \<open>Decoding is the inverse of encoding at the head of any stream.\<close>

lemma decode_head:
  "wf x \<Longrightarrow> rd_bytes r = enc x @ rest \<Longrightarrow> \<exists>r'. dec r = (Inr x, r') \<and> rd_bytes r' = rest \<and> rd_err r' = rd_err r"
  by (rule decodes_apply [OF dec_enc])

lemma decode_canonical:
  assumes "dec r = (Inr x, r')"
  shows "wf x \<and> rd_bytes r = enc x @ rd_bytes r' \<and> rd_err r' = rd_err r"
  using enc_dec assms by (fastforce simp: accepts_def rd_after_def prefix_def)

text \<open>No encoding is a proper prefix of another, and encodings are unambiguous.\<close>

lemma prefix_free:
  assumes "wf x" "wf y" "prefix (enc x) (enc y)"
  shows "x = y"
proof -
  obtain rest where y: "enc y = enc x @ rest" using assms(3) by (auto simp: prefix_def)
  define r where "r = \<lparr>rd_chunks = [enc y], rd_err = Sentinel EOF, rd_eager = False\<rparr>"
  have "rd_bytes r = enc x @ rest" "rd_bytes r = enc y @ []"
    by (simp_all add: r_def rd_bytes_def y)
  then show ?thesis using decode_head [OF assms(1)] decode_head [OF assms(2)] by fastforce
qed

lemma enc_inject: "wf x \<Longrightarrow> wf y \<Longrightarrow> enc x = enc y \<Longrightarrow> x = y"
  by (rule prefix_free) auto

end

end
