(* ===== verification/Go_Net.thy ===== *)
theory Go_Net
  imports Go_Prelude
begin

text \<open>
  The part of package \<^verbatim>\<open>net\<close> the repository uses. A \<^verbatim>\<open>net.IP\<close> is a byte slice; a nil and
  an empty slice are both the empty list, since the sources only look at the length. The
  conversions return \<open>None\<close> where Go returns nil.
\<close>

type_synonym net_IP = bytes

definition v4InV6Prefix :: bytes where
  "v4InV6Prefix = [0, 0, 0, 0, 0, 0, 0, 0, 0, 0, 0xff, 0xff]"

definition To4 :: "net_IP \<Rightarrow> net_IP option" where
  "To4 ip =
     (if length ip = 4 then Some ip
      else if length ip = 16 \<and> list_all (\<lambda>b. b = 0) (take 10 ip) \<and> ip ! 10 = 0xff \<and> ip ! 11 = 0xff
      then Some (drop 12 ip)
      else None)"

definition To16 :: "net_IP \<Rightarrow> net_IP option" where
  "To16 ip =
     (if length ip = 4 then Some (v4InV6Prefix @ ip)
      else if length ip = 16 then Some ip
      else None)"

section \<open>Lemmas\<close>

lemma To4_length: "To4 ip = Some v \<Longrightarrow> length v = 4"
  by (auto simp: To4_def split: if_splits)

lemma To16_length: "To16 ip = Some v \<Longrightarrow> length v = 16"
  by (auto simp: To16_def v4InV6Prefix_def split: if_splits)

lemma To4_id [simp]: "length ip = 4 \<Longrightarrow> To4 ip = Some ip"
  by (simp add: To4_def)

lemma To16_id [simp]: "length ip = 16 \<Longrightarrow> To16 ip = Some ip"
  by (simp add: To16_def)

lemma To4_To16: "length ip = 4 \<Longrightarrow> To16 ip = Some v \<Longrightarrow> To4 v = Some ip"
  by (auto simp: To4_def To16_def v4InV6Prefix_def)

end
