(* ===== verification/Codec.thy ===== *)
theory Codec
  imports Go_IO Go_Net
begin

text \<open>
  The wire codec, \<^verbatim>\<open>internal/transport/grpc/tunnelpb/codec.go\<close>: the frame and record
  structs, the tag bytes and limits, \<^verbatim>\<open>WriteFrame\<close> and \<^verbatim>\<open>ReadFrame\<close> with the writers
  and readers of the five control records and of the optional IP fields. Writers are values of
  \<open>wr\<close>, readers of \<open>'a rd\<close>; the result of \<^verbatim>\<open>ReadFrame\<close> is the pair of a possibly nil frame
  and a possibly nil error, as in the source. The layouts \<open>enc_hello\<close>, \<dots>, \<open>enc_frame\<close> are the
  abstract wire format; the lemmas show that the writers emit them, that the readers invert
  them, that the readers accept nothing else, and what happens on truncated input.
\<close>

section \<open>Tags and limits\<close>

definition TagIPv4 :: byte where [codec_simps]: "TagIPv4 = 0x04"
definition TagIPv6 :: byte where [codec_simps]: "TagIPv6 = 0x06"
definition TagHello :: byte where [codec_simps]: "TagHello = 0x10"
definition TagSession :: byte where [codec_simps]: "TagSession = 0x11"
definition TagKeepalive :: byte where [codec_simps]: "TagKeepalive = 0x12"
definition TagRekey :: byte where [codec_simps]: "TagRekey = 0x13"
definition TagClose :: byte where [codec_simps]: "TagClose = 0x14"

definition MaxIPPacket :: nat where [codec_simps]: "MaxIPPacket = 65535"
definition MaxStringLen :: nat where [codec_simps]: "MaxStringLen = 255"
definition MaxDNSEntries :: nat where [codec_simps]: "MaxDNSEntries = 4"

section \<open>Records\<close>

record hello =
  ProtocolVersion :: u32
  ClientID :: string
  CipherSuite :: u32

record session =
  AssignedIPv4 :: net_IP
  AssignedIPv6 :: net_IP
  DNSServers :: "net_IP list"
  MTU :: u32

record keepalive =
  Nonce :: u64

record rekey =
  X25519Public :: bytes
  MLKEMPublic :: bytes
  ActivateAtSeq :: u64

record close_record =
  Code :: u32
  Message :: string

text \<open>A nil slice or pointer is \<open>None\<close>.\<close>

record frame =
  Tag :: byte
  Packet :: "bytes option"
  Hello :: "hello option"
  Session :: "session option"
  Keepalive :: "keepalive option"
  Rekey :: "rekey option"
  Close :: "close_record option"

text \<open>The frame literal \<^verbatim>\<open>Frame{Tag: t}\<close>: every other field nil.\<close>

definition bare_frame :: "byte \<Rightarrow> frame" where
  "bare_frame t = \<lparr>Tag = t, Packet = None, Hello = None, Session = None,
     Keepalive = None, Rekey = None, Close = None\<rparr>"

text \<open>\<^verbatim>\<open>f.Packet\<close> as a value of type \<^verbatim>\<open>[]byte\<close>: a nil slice has no bytes.\<close>

definition packet_bytes :: "frame \<Rightarrow> bytes" where
  "packet_bytes f = (case Packet f of None \<Rightarrow> [] | Some p \<Rightarrow> p)"

section \<open>Error values\<close>

definition short_read :: "string \<Rightarrow> go_error \<Rightarrow> go_error" where
  "short_read what e = Errorf [W (Sentinel ErrShortRead), Txt ('': '' @ what @ '': ''), V e]"

definition too_long :: "string \<Rightarrow> go_error" where
  "too_long what = Errorf [Txt (''tunnelpb: '' @ what @ '': ''), W (Sentinel ErrFieldTooLong)]"

definition bad_length :: "string \<Rightarrow> go_error" where
  "bad_length what = Errorf [W (Sentinel ErrLengthInvalid), Txt ('': '' @ what)]"

section \<open>IP fields\<close>

definition writeIP :: "net_IP \<Rightarrow> nat \<Rightarrow> wr" where
  "writeIP ip want =
     (if length ip = 0 then io_Write [0]
      else if length ip \<noteq> want
      then wr_fail (bad_length (''got '' @ fmt_d (length ip) @ '' bytes, want '' @ fmt_d want))
      else wr_then (io_Write [word_of_nat want]) (io_Write ip))"

definition writeIP16 :: "net_IP \<Rightarrow> nat \<Rightarrow> wr" where
  "writeIP16 ip want =
     (if length ip = 0 then io_Write [0]
      else (case To16 ip of
              None \<Rightarrow> wr_fail (bad_length ''not a valid IPv6 address'')
            | Some v6 \<Rightarrow>
                if length v6 \<noteq> want
                then wr_fail (bad_length (''got '' @ fmt_d (length v6) @ '' bytes, want '' @ fmt_d want))
                else wr_then (io_Write [word_of_nat want]) (io_Write v6)))"

definition readIP :: "nat \<Rightarrow> net_IP rd" where
  "readIP want =
     rd_bind (rd_full 1 (\<lambda>e. Errorf [Txt ''length byte: '', W e])) (\<lambda>lenBuf.
       if lenBuf ! 0 = 0 then rd_return []
       else if unat (lenBuf ! 0) \<noteq> want
       then rd_fail (bad_length (''got '' @ fmt_d (unat (lenBuf ! 0)) @ '', want '' @ fmt_d want))
       else rd_full want (\<lambda>e. Errorf [Txt ''body: '', W e]))"

definition readIP16 :: "nat \<Rightarrow> net_IP rd" where
  "readIP16 want =
     rd_bind (rd_full 1 (\<lambda>e. Errorf [Txt ''length byte: '', W e])) (\<lambda>lenBuf.
       if lenBuf ! 0 = 0 then rd_return []
       else if unat (lenBuf ! 0) \<noteq> want
       then rd_fail (bad_length (''got '' @ fmt_d (unat (lenBuf ! 0)) @ '', want '' @ fmt_d want))
       else rd_full want (\<lambda>e. Errorf [Txt ''body: '', W e]))"

section \<open>Control records\<close>

definition writeHello :: "hello option \<Rightarrow> wr" where
  "writeHello ho =
     (case ho of
        None \<Rightarrow> wr_fail (ErrorsNew ''tunnelpb: nil Hello'')
      | Some h \<Rightarrow>
          if length (ClientID h) > MaxStringLen
          then wr_fail (too_long (''Hello.ClientID '' @ fmt_d (length (ClientID h)) @ '' > '' @ fmt_d MaxStringLen))
          else wr_then
            (io_Write (PutUint32 (ProtocolVersion h) @ [word_of_nat (length (ClientID h))]
               @ PutUint32 (CipherSuite h)))
            (io_Write (bytes_of_string (ClientID h))))"

definition readHello :: "hello rd" where
  "readHello =
     rd_bind (rd_full 9 (short_read ''Hello head'')) (\<lambda>head.
       let idLen = unat (head ! 4) in
       rd_bind (if idLen > 0 then rd_full idLen (short_read ''Hello.ClientID'') else rd_return [])
         (\<lambda>id. rd_return \<lparr>ProtocolVersion = Uint32 (take 4 head),
            ClientID = string_of_bytes id, CipherSuite = Uint32 (drop 5 head)\<rparr>))"

fun writeDNS :: "nat \<Rightarrow> net_IP list \<Rightarrow> wr" where
  "writeDNS i [] = wr_ok"
| "writeDNS i (dns # rest) =
     (case To16 dns of
        None \<Rightarrow> wr_fail (Errorf [Txt (''tunnelpb: Session.DNSServers['' @ fmt_d i @ '']: invalid IP'')])
      | Some ip \<Rightarrow> wr_then (io_Write ip) (writeDNS (Suc i) rest))"

definition writeSession :: "session option \<Rightarrow> wr" where
  "writeSession so =
     (case so of
        None \<Rightarrow> wr_fail (ErrorsNew ''tunnelpb: nil Session'')
      | Some s \<Rightarrow>
          if length (DNSServers s) > MaxDNSEntries
          then wr_fail (too_long (''Session.DNSServers '' @ fmt_d (length (DNSServers s)) @ '' > ''
                 @ fmt_d MaxDNSEntries))
          else wr_then (io_Write ([word_of_nat (length (DNSServers s))] @ PutUint32 (MTU s)))
            (wr_then
              (wr_map_error (\<lambda>e. Errorf [Txt ''tunnelpb: Session.AssignedIPv4: '', W e])
                 (writeIP (case To4 (AssignedIPv4 s) of None \<Rightarrow> [] | Some v \<Rightarrow> v) 4))
              (wr_then
                (wr_map_error (\<lambda>e. Errorf [Txt ''tunnelpb: Session.AssignedIPv6: '', W e])
                   (writeIP16 (AssignedIPv6 s) 16))
                (writeDNS 0 (DNSServers s)))))"

fun readDNS :: "nat \<Rightarrow> nat \<Rightarrow> net_IP list rd" where
  "readDNS i 0 = rd_return []"
| "readDNS i (Suc k) =
     rd_bind (rd_full 16 (short_read (''Session.DNSServers['' @ fmt_d i @ '']'')))
       (\<lambda>buf. rd_bind (readDNS (Suc i) k) (\<lambda>rest. rd_return (buf # rest)))"

definition readSession :: "session rd" where
  "readSession =
     rd_bind (rd_full 5 (short_read ''Session head'')) (\<lambda>head.
       let dnsCount = unat (head ! 0) in
       if dnsCount > MaxDNSEntries
       then rd_fail (too_long (''Session.DNSServers count '' @ fmt_d dnsCount @ '' > '' @ fmt_d MaxDNSEntries))
       else rd_bind (rd_map_error (\<lambda>e. Errorf [Txt ''tunnelpb: Session.AssignedIPv4: '', W e]) (readIP 4))
         (\<lambda>v4. rd_bind (rd_map_error (\<lambda>e. Errorf [Txt ''tunnelpb: Session.AssignedIPv6: '', W e]) (readIP16 16))
           (\<lambda>v6. rd_bind (readDNS 0 dnsCount)
             (\<lambda>dns. rd_return \<lparr>AssignedIPv4 = v4, AssignedIPv6 = v6, DNSServers = dns,
                MTU = Uint32 (drop 1 head)\<rparr>))))"

definition writeKeepalive :: "keepalive option \<Rightarrow> wr" where
  "writeKeepalive ko =
     (case ko of
        None \<Rightarrow> wr_fail (ErrorsNew ''tunnelpb: nil Keepalive'')
      | Some k \<Rightarrow> io_Write (PutUint64 (Nonce k)))"

definition readKeepalive :: "keepalive rd" where
  "readKeepalive =
     rd_bind (rd_full 8 (short_read ''Keepalive'')) (\<lambda>buf. rd_return \<lparr>Nonce = Uint64 buf\<rparr>)"

definition writeRekey :: "rekey option \<Rightarrow> wr" where
  "writeRekey ro =
     (case ro of
        None \<Rightarrow> wr_fail (ErrorsNew ''tunnelpb: nil Rekey'')
      | Some rk \<Rightarrow>
          if length (X25519Public rk) \<noteq> 32
          then wr_fail (Errorf [Txt (''tunnelpb: Rekey.X25519Public length '' @ fmt_d (length (X25519Public rk))
                 @ '' != 32: ''), W (Sentinel ErrLengthInvalid)])
          else if length (MLKEMPublic rk) \<noteq> 1184
          then wr_fail (Errorf [Txt (''tunnelpb: Rekey.MLKEMPublic length '' @ fmt_d (length (MLKEMPublic rk))
                 @ '' != 1184: ''), W (Sentinel ErrLengthInvalid)])
          else wr_then (io_Write (X25519Public rk))
            (wr_then (io_Write (MLKEMPublic rk)) (io_Write (PutUint64 (ActivateAtSeq rk)))))"

definition readRekey :: "rekey rd" where
  "readRekey =
     rd_bind (rd_full 32 (short_read ''Rekey.X25519Public'')) (\<lambda>x.
       rd_bind (rd_full 1184 (short_read ''Rekey.MLKEMPublic'')) (\<lambda>m.
         rd_bind (rd_full 8 (short_read ''Rekey.ActivateAtSeq'')) (\<lambda>buf.
           rd_return \<lparr>X25519Public = x, MLKEMPublic = m, ActivateAtSeq = Uint64 buf\<rparr>)))"

definition writeClose :: "close_record option \<Rightarrow> wr" where
  "writeClose co =
     (case co of
        None \<Rightarrow> wr_fail (ErrorsNew ''tunnelpb: nil Close'')
      | Some c \<Rightarrow>
          if length (Message c) > MaxStringLen
          then wr_fail (too_long (''Close.Message '' @ fmt_d (length (Message c)) @ '' > '' @ fmt_d MaxStringLen))
          else wr_then (io_Write (PutUint32 (Code c) @ [word_of_nat (length (Message c))]))
            (io_Write (bytes_of_string (Message c))))"

definition readClose :: "close_record rd" where
  "readClose =
     rd_bind (rd_full 5 (short_read ''Close head'')) (\<lambda>head.
       let msgLen = unat (head ! 4) in
       rd_bind (if msgLen > 0 then rd_full msgLen (short_read ''Close.Message'') else rd_return [])
         (\<lambda>msg. rd_return \<lparr>Code = Uint32 (take 4 head), Message = string_of_bytes msg\<rparr>))"

section \<open>Frames\<close>

definition unknown_tag :: "byte \<Rightarrow> go_error" where
  "unknown_tag t = Errorf [W (Sentinel ErrUnknownTag), Txt ('': 0x'' @ fmt_02x t)]"

definition WriteFrame :: "frame \<Rightarrow> wr" where
  "WriteFrame f =
     (if Tag f = TagIPv4 \<or> Tag f = TagIPv6 then
        (if length (packet_bytes f) > MaxIPPacket
         then wr_fail (too_long (''packet length '' @ fmt_d (length (packet_bytes f)) @ '' exceeds max ''
                @ fmt_d MaxIPPacket))
         else wr_then (io_Write [Tag f])
           (wr_then (io_Write (PutUint16 (word_of_nat (length (packet_bytes f)))))
             (io_Write (packet_bytes f))))
      else if Tag f = TagHello then wr_then (io_Write [Tag f]) (writeHello (Hello f))
      else if Tag f = TagSession then wr_then (io_Write [Tag f]) (writeSession (Session f))
      else if Tag f = TagKeepalive then wr_then (io_Write [Tag f]) (writeKeepalive (Keepalive f))
      else if Tag f = TagRekey then wr_then (io_Write [Tag f]) (writeRekey (Rekey f))
      else if Tag f = TagClose then wr_then (io_Write [Tag f]) (writeClose (Close f))
      else wr_fail (unknown_tag (Tag f)))"

text \<open>The outcome of reading one frame: the frame pointer and the error.\<close>

type_synonym frame_result = "frame option \<times> go_error option"

text \<open>
  \<^verbatim>\<open>h, err := readHello(r); return &Frame{Tag: tag, Hello: h}, err\<close>: the frame is non-nil
  even when \<^verbatim>\<open>err\<close> is.
\<close>

definition control_result ::
  "'a rd \<Rightarrow> byte \<Rightarrow> ('a option \<Rightarrow> frame \<Rightarrow> frame) \<Rightarrow> io_reader \<Rightarrow> frame_result \<times> io_reader" where
  "control_result m tag put r =
     (case m r of
        (Inl e, r') \<Rightarrow> ((Some (put None (bare_frame tag)), Some e), r')
      | (Inr x, r') \<Rightarrow> ((Some (put (Some x) (bare_frame tag)), None), r'))"

definition packet_body :: "byte \<Rightarrow> frame rd" where
  "packet_body tag =
     rd_bind (rd_full 2 (short_read ''packet length'')) (\<lambda>lenBuf.
       let n = Uint16 lenBuf in
       if n = 0 then rd_fail (bad_length ''zero-length packet'')
       else rd_bind (rd_full (unat n) (short_read ''packet body'')) (\<lambda>buf.
         rd_return ((bare_frame tag)\<lparr>Packet := Some buf\<rparr>)))"

definition tag_error :: "go_error \<Rightarrow> go_error" where
  "tag_error e =
     (if errors_Is e EOF then Sentinel EOF
      else if errors_Is e ErrUnexpectedEOF then Errorf [W (Sentinel ErrShortRead), Txt '': tag byte'']
      else e)"

definition ReadFrame :: "io_reader \<Rightarrow> frame_result \<times> io_reader" where
  "ReadFrame r =
     (case io_ReadFull r 1 of
        (Inl e, r1) \<Rightarrow> ((None, Some (tag_error e)), r1)
      | (Inr tagBuf, r1) \<Rightarrow>
          (let tag = tagBuf ! 0 in
           if tag = TagIPv4 \<or> tag = TagIPv6 then
             (case packet_body tag r1 of
                (Inl e, r2) \<Rightarrow> ((None, Some e), r2)
              | (Inr f, r2) \<Rightarrow> ((Some f, None), r2))
           else if tag = TagHello then control_result readHello tag (\<lambda>x. Hello_update (\<lambda>_. x)) r1
           else if tag = TagSession then control_result readSession tag (\<lambda>x. Session_update (\<lambda>_. x)) r1
           else if tag = TagKeepalive then control_result readKeepalive tag (\<lambda>x. Keepalive_update (\<lambda>_. x)) r1
           else if tag = TagRekey then control_result readRekey tag (\<lambda>x. Rekey_update (\<lambda>_. x)) r1
           else if tag = TagClose then control_result readClose tag (\<lambda>x. Close_update (\<lambda>_. x)) r1
           else ((None, Some (unknown_tag tag)), r1)))"

section \<open>The wire format\<close>

text \<open>The abstract layout of each record body, and which values the format can carry.\<close>

definition enc_hello :: "hello \<Rightarrow> bytes" where
  "enc_hello h = PutUint32 (ProtocolVersion h) @ [word_of_nat (length (ClientID h))]
     @ PutUint32 (CipherSuite h) @ bytes_of_string (ClientID h)"

definition wf_hello :: "hello \<Rightarrow> bool" where
  "wf_hello h \<longleftrightarrow> length (ClientID h) \<le> MaxStringLen"

definition enc_opt_ip :: "net_IP \<Rightarrow> bytes" where
  "enc_opt_ip ip = word_of_nat (length ip) # ip"

definition enc_session :: "session \<Rightarrow> bytes" where
  "enc_session s = [word_of_nat (length (DNSServers s))] @ PutUint32 (MTU s)
     @ enc_opt_ip (AssignedIPv4 s) @ enc_opt_ip (AssignedIPv6 s) @ concat (DNSServers s)"

definition wf_session :: "session \<Rightarrow> bool" where
  "wf_session s \<longleftrightarrow> length (DNSServers s) \<le> MaxDNSEntries
     \<and> length (AssignedIPv4 s) \<in> {0, 4} \<and> length (AssignedIPv6 s) \<in> {0, 16}
     \<and> list_all (\<lambda>ip. length ip = 16) (DNSServers s)"

definition enc_keepalive :: "keepalive \<Rightarrow> bytes" where
  "enc_keepalive k = PutUint64 (Nonce k)"

definition enc_rekey :: "rekey \<Rightarrow> bytes" where
  "enc_rekey rk = X25519Public rk @ MLKEMPublic rk @ PutUint64 (ActivateAtSeq rk)"

definition wf_rekey :: "rekey \<Rightarrow> bool" where
  "wf_rekey rk \<longleftrightarrow> length (X25519Public rk) = 32 \<and> length (MLKEMPublic rk) = 1184"

definition enc_close :: "close_record \<Rightarrow> bytes" where
  "enc_close c = PutUint32 (Code c) @ [word_of_nat (length (Message c))] @ bytes_of_string (Message c)"

definition wf_close :: "close_record \<Rightarrow> bool" where
  "wf_close c \<longleftrightarrow> length (Message c) \<le> MaxStringLen"

text \<open>
  A canonical frame: the tag is known, exactly the field the tag announces is set, and its
  value is one the format can carry. These are the frames \<open>ReadFrame\<close> can return.
\<close>

definition wf_frame :: "frame \<Rightarrow> bool" where
  "wf_frame f \<longleftrightarrow>
     (\<exists>t p. t \<in> {TagIPv4, TagIPv6} \<and> 0 < length p \<and> length p \<le> MaxIPPacket
        \<and> f = (bare_frame t)\<lparr>Packet := Some p\<rparr>)
   \<or> (\<exists>h. wf_hello h \<and> f = (bare_frame TagHello)\<lparr>Hello := Some h\<rparr>)
   \<or> (\<exists>s. wf_session s \<and> f = (bare_frame TagSession)\<lparr>Session := Some s\<rparr>)
   \<or> (\<exists>k. f = (bare_frame TagKeepalive)\<lparr>Keepalive := Some k\<rparr>)
   \<or> (\<exists>rk. wf_rekey rk \<and> f = (bare_frame TagRekey)\<lparr>Rekey := Some rk\<rparr>)
   \<or> (\<exists>c. wf_close c \<and> f = (bare_frame TagClose)\<lparr>Close := Some c\<rparr>)"

definition enc_body :: "frame \<Rightarrow> bytes" where
  "enc_body f =
     (if Tag f = TagIPv4 \<or> Tag f = TagIPv6
      then PutUint16 (word_of_nat (length (packet_bytes f))) @ packet_bytes f
      else if Tag f = TagHello then (case Hello f of None \<Rightarrow> [] | Some h \<Rightarrow> enc_hello h)
      else if Tag f = TagSession then (case Session f of None \<Rightarrow> [] | Some s \<Rightarrow> enc_session s)
      else if Tag f = TagKeepalive then (case Keepalive f of None \<Rightarrow> [] | Some k \<Rightarrow> enc_keepalive k)
      else if Tag f = TagRekey then (case Rekey f of None \<Rightarrow> [] | Some rk \<Rightarrow> enc_rekey rk)
      else (case Close f of None \<Rightarrow> [] | Some c \<Rightarrow> enc_close c))"

definition enc_frame :: "frame \<Rightarrow> bytes" where
  "enc_frame f = Tag f # enc_body f"

text \<open>
  The frame a receiver gets for a frame that was written: only the field the tag announces
  survives, and a Session's addresses are brought to their wire form.
\<close>

definition canon_ip4 :: "net_IP \<Rightarrow> net_IP" where
  "canon_ip4 ip = (case To4 ip of None \<Rightarrow> [] | Some v \<Rightarrow> v)"

definition canon_ip16 :: "net_IP \<Rightarrow> net_IP" where
  "canon_ip16 ip = (case To16 ip of None \<Rightarrow> [] | Some v \<Rightarrow> v)"

definition canon_session :: "session \<Rightarrow> session" where
  "canon_session s = s\<lparr>AssignedIPv4 := canon_ip4 (AssignedIPv4 s),
     AssignedIPv6 := canon_ip16 (AssignedIPv6 s), DNSServers := map canon_ip16 (DNSServers s)\<rparr>"

definition canon_frame :: "frame \<Rightarrow> frame" where
  "canon_frame f =
     (let b = bare_frame (Tag f) in
      if Tag f = TagIPv4 \<or> Tag f = TagIPv6 then b\<lparr>Packet := Some (packet_bytes f)\<rparr>
      else if Tag f = TagHello then b\<lparr>Hello := Hello f\<rparr>
      else if Tag f = TagSession then b\<lparr>Session := map_option canon_session (Session f)\<rparr>
      else if Tag f = TagKeepalive then b\<lparr>Keepalive := Keepalive f\<rparr>
      else if Tag f = TagRekey then b\<lparr>Rekey := Rekey f\<rparr>
      else b\<lparr>Close := Close f\<rparr>)"

text \<open>When \<open>WriteFrame\<close> succeeds on a stream without faults.\<close>

definition writable :: "frame \<Rightarrow> bool" where
  "writable f \<longleftrightarrow>
     (if Tag f = TagIPv4 \<or> Tag f = TagIPv6 then length (packet_bytes f) \<le> MaxIPPacket
      else if Tag f = TagHello then (case Hello f of None \<Rightarrow> False | Some h \<Rightarrow> wf_hello h)
      else if Tag f = TagSession then
        (case Session f of None \<Rightarrow> False
         | Some s \<Rightarrow> length (DNSServers s) \<le> MaxDNSEntries
             \<and> length (AssignedIPv6 s) \<in> {0, 4, 16}
             \<and> list_all (\<lambda>ip. length ip \<in> {4, 16}) (DNSServers s))
      else if Tag f = TagKeepalive then Keepalive f \<noteq> None
      else if Tag f = TagRekey then (case Rekey f of None \<Rightarrow> False | Some rk \<Rightarrow> wf_rekey rk)
      else Tag f = TagClose \<and> (case Close f of None \<Rightarrow> False | Some c \<Rightarrow> wf_close c))"

section \<open>Round trips of the record bodies\<close>

lemma unat_of_small [simp]: "n < 256 \<Longrightarrow> unat (word_of_nat n :: byte) = n"
  by (simp add: unat_of_nat)

lemma small_byte_zero [simp]: "n < 256 \<Longrightarrow> (word_of_nat n :: byte) = 0 \<longleftrightarrow> n = 0"
  using dvd_imp_le [of 256 n] by (auto simp: word_of_nat_eq_0_iff)

lemma short_read_simps [simp, err_simps]:
  "errors_Is (short_read what e) t \<longleftrightarrow> t = ErrShortRead"
  "errors_Is (too_long what) t \<longleftrightarrow> t = ErrFieldTooLong"
  "errors_Is (bad_length what) t \<longleftrightarrow> t = ErrLengthInvalid"
  "errors_Is (unknown_tag tag) t \<longleftrightarrow> t = ErrUnknownTag"
  by (auto simp: short_read_def too_long_def bad_length_def unknown_tag_def)

text \<open>A length-prefixed field: the reader skips the read when the length is 0.\<close>

lemma decodes_opt_full [step_intros]:
  "length bs = n \<Longrightarrow> bs = bs' \<Longrightarrow>
   decodes (if 0 < n then rd_full n wrap else rd_return []) bs bs'"
  by (auto intro: step_intros)

lemma accepts_opt_full [step_intros]:
  "(\<And>bs. length bs = n \<Longrightarrow> P bs bs) \<Longrightarrow> accepts (if 0 < n then rd_full n wrap else rd_return []) P"
  by (auto intro!: step_intros)

lemma truncates_opt_full [step_intros]:
  "length bs = n \<Longrightarrow> Q (wrap (Sentinel EOF)) \<Longrightarrow> Q (wrap (Sentinel ErrUnexpectedEOF)) \<Longrightarrow>
   truncates (if 0 < n then rd_full n wrap else rd_return []) bs Q"
  by (auto intro: step_intros)

lemma readHello_decodes: "wf_hello h \<Longrightarrow> decodes readHello (enc_hello h) h"
  unfolding readHello_def enc_hello_def wf_hello_def MaxStringLen_def
  by (rule decodes_bind_eq [where bs = "PutUint32 (ProtocolVersion h)
        @ [word_of_nat (length (ClientID h))] @ PutUint32 (CipherSuite h)"], rule decodes_full)
    (auto simp: Let_def nth_append intro!: decodes_bind_eq [where bs = "bytes_of_string (ClientID h)"]
      step_intros)

lemma readHello_accepts: "accepts readHello (\<lambda>h bs. wf_hello h \<and> bs = enc_hello h)"
  unfolding readHello_def Let_def
proof (rule accepts_bind [where Q = "\<lambda>head bs. bs = head \<and> length head = 9"])
  show "accepts (rd_full 9 (short_read ''Hello head'')) (\<lambda>head bs. bs = head \<and> length head = 9)"
    by (rule accepts_full) simp
next
  fix head bs :: bytes
  assume "bs = head \<and> length head = 9"
  then obtain b0 b1 b2 b3 n c0 c1 c2 c3 where
    head: "bs = head" "head = [b0, b1, b2, b3, n, c0, c1, c2, c3]"
    by (auto simp: numeral_eq_Suc length_Suc_conv)
  have "unat n < 2 ^ LENGTH(8)" by (rule unsigned_less)
  then show "accepts (rd_bind (if 0 < unat (head ! 4) then rd_full (unat (head ! 4)) (short_read ''Hello.ClientID'')
      else rd_return []) (\<lambda>id. rd_return \<lparr>ProtocolVersion = Uint32 (take 4 head),
            ClientID = string_of_bytes id, CipherSuite = Uint32 (drop 5 head)\<rparr>))
     (\<lambda>h cs. wf_hello h \<and> bs @ cs = enc_hello h)"
    by (intro accepts_bind [where Q = "\<lambda>id cs. cs = id \<and> length id = unat n"] step_intros)
      (auto simp: head wf_hello_def MaxStringLen_def enc_hello_def PutUint32_list simp del: Uint32.simps)
qed

lemma readHello_truncates:
  "wf_hello h \<Longrightarrow> truncates readHello (enc_hello h) (\<lambda>e. errors_Is e ErrShortRead \<and> \<not> errors_Is e EOF)"
  unfolding readHello_def enc_hello_def wf_hello_def MaxStringLen_def
  by (rule truncates_bind_eq [where bs = "PutUint32 (ProtocolVersion h)
        @ [word_of_nat (length (ClientID h))] @ PutUint32 (CipherSuite h)"],
      rule truncates_full, simp, simp, simp, rule decodes_full)
    (auto simp: Let_def nth_append intro!: truncates_bind_eq [where bs = "bytes_of_string (ClientID h)"]
      step_intros)

lemma readClose_decodes: "wf_close c \<Longrightarrow> decodes readClose (enc_close c) c"
  unfolding readClose_def enc_close_def wf_close_def MaxStringLen_def
  by (rule decodes_bind_eq [where bs = "PutUint32 (Code c) @ [word_of_nat (length (Message c))]"],
      rule decodes_full)
    (auto simp: Let_def nth_append intro!: decodes_bind_eq [where bs = "bytes_of_string (Message c)"]
      step_intros)

lemma readClose_accepts: "accepts readClose (\<lambda>c bs. wf_close c \<and> bs = enc_close c)"
  unfolding readClose_def Let_def
proof (rule accepts_bind [where Q = "\<lambda>head bs. bs = head \<and> length head = 5"])
  show "accepts (rd_full 5 (short_read ''Close head'')) (\<lambda>head bs. bs = head \<and> length head = 5)"
    by (rule accepts_full) simp
next
  fix head bs :: bytes
  assume "bs = head \<and> length head = 5"
  then obtain b0 b1 b2 b3 n where head: "bs = head" "head = [b0, b1, b2, b3, n]"
    by (auto simp: numeral_eq_Suc length_Suc_conv)
  have "unat n < 2 ^ LENGTH(8)" by (rule unsigned_less)
  then show "accepts (rd_bind (if 0 < unat (head ! 4) then rd_full (unat (head ! 4)) (short_read ''Close.Message'')
      else rd_return []) (\<lambda>msg. rd_return \<lparr>Code = Uint32 (take 4 head), Message = string_of_bytes msg\<rparr>))
     (\<lambda>c cs. wf_close c \<and> bs @ cs = enc_close c)"
    by (intro accepts_bind [where Q = "\<lambda>msg cs. cs = msg \<and> length msg = unat n"] step_intros)
      (auto simp: head wf_close_def MaxStringLen_def enc_close_def PutUint32_list simp del: Uint32.simps)
qed

lemma readClose_truncates:
  "wf_close c \<Longrightarrow> truncates readClose (enc_close c) (\<lambda>e. errors_Is e ErrShortRead \<and> \<not> errors_Is e EOF)"
  unfolding readClose_def enc_close_def wf_close_def MaxStringLen_def
  by (rule truncates_bind_eq [where bs = "PutUint32 (Code c) @ [word_of_nat (length (Message c))]"],
      rule truncates_full, simp, simp, simp, rule decodes_full)
    (auto simp: Let_def nth_append intro!: truncates_bind_eq [where bs = "bytes_of_string (Message c)"]
      step_intros)

lemma readKeepalive_decodes: "decodes readKeepalive (enc_keepalive k) k"
  unfolding readKeepalive_def enc_keepalive_def
  by (rule decodes_bind_eq [where bs = "PutUint64 (Nonce k)"]) (auto intro!: step_intros)

lemma readKeepalive_accepts: "accepts readKeepalive (\<lambda>k bs. True \<and> bs = enc_keepalive k)"
  unfolding readKeepalive_def
  by (intro accepts_bind [where Q = "\<lambda>buf bs. bs = buf \<and> length buf = 8"] step_intros)
    (auto simp: enc_keepalive_def PutUint64_Uint64)

lemma readKeepalive_truncates:
  "truncates readKeepalive (enc_keepalive k) (\<lambda>e. errors_Is e ErrShortRead \<and> \<not> errors_Is e EOF)"
  unfolding readKeepalive_def enc_keepalive_def
  by (rule truncates_bind_eq [where bs = "PutUint64 (Nonce k)"]) (auto intro!: step_intros)

lemma readRekey_decodes: "wf_rekey rk \<Longrightarrow> decodes readRekey (enc_rekey rk) rk"
  unfolding readRekey_def enc_rekey_def wf_rekey_def
  by (intro decodes_bind_eq [where bs = "X25519Public rk" and x = "X25519Public rk"]
      decodes_bind_eq [where bs = "MLKEMPublic rk" and x = "MLKEMPublic rk"]
      decodes_bind_eq [where bs = "PutUint64 (ActivateAtSeq rk)" and x = "PutUint64 (ActivateAtSeq rk)"])
    (auto intro!: step_intros)

lemma readRekey_accepts: "accepts readRekey (\<lambda>rk bs. wf_rekey rk \<and> bs = enc_rekey rk)"
  unfolding readRekey_def
  by (intro accepts_bind [where Q = "\<lambda>buf bs. bs = buf \<and> length buf = 32"]
      accepts_bind [where Q = "\<lambda>buf bs. bs = buf \<and> length buf = 1184"]
      accepts_bind [where Q = "\<lambda>buf bs. bs = buf \<and> length buf = 8"] accepts_full accepts_return)
    (auto simp: enc_rekey_def wf_rekey_def PutUint64_Uint64)

lemma readRekey_truncates:
  "wf_rekey rk \<Longrightarrow> truncates readRekey (enc_rekey rk) (\<lambda>e. errors_Is e ErrShortRead \<and> \<not> errors_Is e EOF)"
  unfolding readRekey_def enc_rekey_def wf_rekey_def
  by (intro truncates_bind_eq [where bs = "X25519Public rk" and x = "X25519Public rk"]
      truncates_bind_eq [where bs = "MLKEMPublic rk" and x = "MLKEMPublic rk"]
      truncates_bind_eq [where bs = "PutUint64 (ActivateAtSeq rk)" and x = "PutUint64 (ActivateAtSeq rk)"])
    (auto intro!: step_intros)

section \<open>Round trip of the Session record\<close>

lemma readIP16_eq: "readIP16 = readIP"
  by (simp add: fun_eq_iff readIP_def readIP16_def)

lemma readIP_decodes:
  assumes "length ip = 0 \<or> length ip = want" and "want < 256"
  shows "decodes (readIP want) (enc_opt_ip ip) ip"
  unfolding readIP_def enc_opt_ip_def
  by (rule decodes_bind_eq [where bs = "[word_of_nat (length ip)]" and cs = ip, OF decodes_full])
    (use assms in \<open>auto intro!: step_intros simp del: word_of_nat_eq_0_iff\<close>)

lemma readIP_accepts:
  assumes "0 < want"
  shows "accepts (readIP want) (\<lambda>ip bs. length ip \<in> {0, want} \<and> bs = enc_opt_ip ip)"
  unfolding readIP_def
proof (rule accepts_bind [where Q = "\<lambda>l bs. bs = l \<and> length l = 1"])
  show "accepts (rd_full 1 (\<lambda>e. Errorf [Txt ''length byte: '', W e])) (\<lambda>l bs. bs = l \<and> length l = 1)"
    by (rule accepts_full) simp
next
  fix l bs :: bytes
  assume "bs = l \<and> length l = 1"
  then obtain n where l: "bs = [n]" "l = [n]" by (auto simp: length_Suc_conv)
  then show "accepts (if l ! 0 = 0 then rd_return []
       else if unat (l ! 0) \<noteq> want
       then rd_fail (bad_length (''got '' @ fmt_d (unat (l ! 0)) @ '', want '' @ fmt_d want))
       else rd_full want (\<lambda>e. Errorf [Txt ''body: '', W e]))
     (\<lambda>ip cs. length ip \<in> {0, want} \<and> bs @ cs = enc_opt_ip ip)"
    by (auto simp: enc_opt_ip_def intro!: step_intros)
qed

lemma readDNS_decodes:
  "list_all (\<lambda>ip. length ip = 16) ips \<Longrightarrow> decodes (readDNS i (length ips)) (concat ips) ips"
  by (induction ips arbitrary: i) (auto intro!: step_intros decodes_bind_eq [where bs = "_ :: bytes"])

lemma readDNS_accepts:
  "accepts (readDNS i n) (\<lambda>ips bs. length ips = n \<and> list_all (\<lambda>ip. length ip = 16) ips \<and> bs = concat ips)"
proof (induction n arbitrary: i)
  case 0
  show ?case by (auto intro!: step_intros)
next
  case (Suc n)
  show ?case
    by (simp, intro accepts_bind [where Q = "\<lambda>buf bs. bs = buf \<and> length buf = 16"] accepts_full
        accepts_bind [OF Suc] accepts_return) auto
qed

lemma readSession_decodes:
  assumes "wf_session s"
  shows "decodes readSession (enc_session s) s"
proof -
  let ?head = "[word_of_nat (length (DNSServers s))] @ PutUint32 (MTU s)"
  have n: "unat (word_of_nat (length (DNSServers s)) :: byte) = length (DNSServers s)" "\<not> MaxDNSEntries < length (DNSServers s)"
    using assms by (auto simp: wf_session_def MaxDNSEntries_def)
  have v4: "decodes (readIP 4) (enc_opt_ip (AssignedIPv4 s)) (AssignedIPv4 s)"
    and v6: "decodes (readIP16 16) (enc_opt_ip (AssignedIPv6 s)) (AssignedIPv6 s)"
    and dns: "decodes (readDNS 0 (length (DNSServers s))) (concat (DNSServers s)) (DNSServers s)"
    using assms by (auto simp: wf_session_def readIP16_eq intro!: readIP_decodes readDNS_decodes)
  show ?thesis
    unfolding readSession_def enc_session_def
    by (rule decodes_bind_eq [where bs = ?head and x = ?head, OF decodes_full])
      (auto simp: Let_def n intro!: decodes_bind_eq [OF decodes_map_error, OF v4]
        decodes_bind_eq [OF decodes_map_error, OF v6] decodes_bind_eq [OF dns] decodes_return)
qed

lemma readSession_accepts: "accepts readSession (\<lambda>s bs. wf_session s \<and> bs = enc_session s)"
  unfolding readSession_def Let_def readIP16_eq
proof (rule accepts_bind [where Q = "\<lambda>head bs. bs = head \<and> length head = 5"])
  show "accepts (rd_full 5 (short_read ''Session head'')) (\<lambda>head bs. bs = head \<and> length head = 5)"
    by (rule accepts_full) simp
next
  fix head bs :: bytes
  assume "bs = head \<and> length head = 5"
  then obtain n b0 b1 b2 b3 where head: "bs = head" "head = [n, b0, b1, b2, b3]"
    by (auto simp: numeral_eq_Suc length_Suc_conv)
  show "accepts (if MaxDNSEntries < unat (head ! 0)
     then rd_fail (too_long (''Session.DNSServers count '' @ fmt_d (unat (head ! 0)) @ '' > '' @ fmt_d MaxDNSEntries))
     else rd_bind (rd_map_error (\<lambda>e. Errorf [Txt ''tunnelpb: Session.AssignedIPv4: '', W e]) (readIP 4))
         (\<lambda>v4. rd_bind (rd_map_error (\<lambda>e. Errorf [Txt ''tunnelpb: Session.AssignedIPv6: '', W e]) (readIP 16))
           (\<lambda>v6. rd_bind (readDNS 0 (unat (head ! 0)))
             (\<lambda>dns. rd_return \<lparr>AssignedIPv4 = v4, AssignedIPv6 = v6, DNSServers = dns,
                MTU = Uint32 (drop 1 head)\<rparr>))))
     (\<lambda>s cs. wf_session s \<and> bs @ cs = enc_session s)"
    by (auto simp: head wf_session_def enc_session_def PutUint32_list simp del: Uint32.simps
        intro!: accepts_fail accepts_bind [OF accepts_map_error, OF readIP_accepts]
          accepts_bind [OF readDNS_accepts] accepts_return)
qed

section \<open>The writers emit the wire format\<close>

lemma writeIP_emits:
  "length ip \<in> {0, want} \<Longrightarrow> emits (writeIP ip want) (enc_opt_ip ip) None"
  unfolding writeIP_def enc_opt_ip_def
  by (auto intro!: emits_Write [where p = "[0]", simplified] emits_then_eq [OF emits_Write emits_Write])

lemma writeIP16_emits:
  "length ip \<in> {0, 4, 16} \<Longrightarrow> emits (writeIP16 ip 16) (enc_opt_ip (canon_ip16 ip)) None"
  unfolding writeIP16_def enc_opt_ip_def canon_ip16_def
  by (auto simp: To16_def v4InV6Prefix_def intro!: emits_Write [where p = "[0]", simplified]
      emits_then_eq [OF emits_Write emits_Write])

lemma writeDNS_emits:
  "list_all (\<lambda>ip. length ip \<in> {4, 16}) ips \<Longrightarrow>
   emits (writeDNS i ips) (concat (map canon_ip16 ips)) None"
proof (induction ips arbitrary: i)
  case Nil
  show ?case by (simp add: emits_ok)
next
  case (Cons ip ips)
  then obtain v where "To16 ip = Some v" by (auto simp: To16_def)
  with Cons show ?case
    by (auto simp: canon_ip16_def intro!: emits_then_eq [OF emits_Write])
qed

lemma canon_ip4_length: "length (canon_ip4 ip) \<in> {0, 4}"
  by (auto simp: canon_ip4_def dest: To4_length split: option.splits)

lemma writeSession_emits:
  assumes "length (DNSServers s) \<le> MaxDNSEntries" "length (AssignedIPv6 s) \<in> {0, 4, 16}"
    "list_all (\<lambda>ip. length ip \<in> {4, 16}) (DNSServers s)"
  shows "emits (writeSession (Some s)) (enc_session (canon_session s)) None"
  unfolding writeSession_def enc_session_def canon_session_def
  using assms
  by (auto simp flip: canon_ip4_def simp: emits_map_error
      intro!: emits_then_eq [OF emits_Write] emits_then_eq [OF emits_map_error, OF writeIP_emits]
        emits_then_eq [OF emits_map_error, OF writeIP16_emits] writeDNS_emits canon_ip4_length)

lemma writeHello_emits: "wf_hello h \<Longrightarrow> emits (writeHello (Some h)) (enc_hello h) None"
  unfolding writeHello_def enc_hello_def wf_hello_def
  by (auto intro!: emits_then_eq [OF emits_Write emits_Write])

lemma writeKeepalive_emits: "emits (writeKeepalive (Some k)) (enc_keepalive k) None"
  by (simp add: writeKeepalive_def enc_keepalive_def emits_Write)

lemma writeRekey_emits: "wf_rekey rk \<Longrightarrow> emits (writeRekey (Some rk)) (enc_rekey rk) None"
  unfolding writeRekey_def enc_rekey_def wf_rekey_def
  by (auto intro!: emits_then_eq [OF emits_Write] emits_Write)

lemma writeClose_emits: "wf_close c \<Longrightarrow> emits (writeClose (Some c)) (enc_close c) None"
  unfolding writeClose_def enc_close_def wf_close_def
  by (auto intro!: emits_then_eq [OF emits_Write emits_Write])

lemmas tag_simps = codec_simps

lemma tag_cases:
  obtains "t = TagIPv4 \<or> t = TagIPv6" | "t = TagHello" | "t = TagSession" | "t = TagKeepalive"
    | "t = TagRekey" | "t = TagClose"
    | "t \<notin> {TagIPv4, TagIPv6, TagHello, TagSession, TagKeepalive, TagRekey, TagClose}"
  by auto

lemma WriteFrame_emits:
  assumes "writable f"
  shows "emits (WriteFrame f) (enc_frame (canon_frame f)) None"
proof (cases rule: tag_cases [of "Tag f"])
  case 1
  then show ?thesis using assms
    by (auto simp: WriteFrame_def writable_def enc_frame_def enc_body_def canon_frame_def
        bare_frame_def packet_bytes_def Let_def intro!: emits_then_eq [OF emits_Write] emits_Write)
next
  case 2
  then show ?thesis using assms
    by (auto simp: WriteFrame_def writable_def enc_frame_def enc_body_def canon_frame_def
        bare_frame_def tag_simps split: option.splits
        intro!: emits_then_eq [OF emits_Write] writeHello_emits)
next
  case 3
  then show ?thesis using assms
    by (auto simp: WriteFrame_def writable_def enc_frame_def enc_body_def canon_frame_def
        bare_frame_def tag_simps split: option.splits
        intro!: emits_then_eq [OF emits_Write] writeSession_emits)
next
  case 4
  then show ?thesis using assms
    by (auto simp: WriteFrame_def writable_def enc_frame_def enc_body_def canon_frame_def
        bare_frame_def tag_simps split: option.splits
        intro!: emits_then_eq [OF emits_Write] writeKeepalive_emits)
next
  case 5
  then show ?thesis using assms
    by (auto simp: WriteFrame_def writable_def enc_frame_def enc_body_def canon_frame_def
        bare_frame_def tag_simps split: option.splits
        intro!: emits_then_eq [OF emits_Write] writeRekey_emits)
next
  case 6
  then show ?thesis using assms
    by (auto simp: WriteFrame_def writable_def enc_frame_def enc_body_def canon_frame_def
        bare_frame_def tag_simps split: option.splits
        intro!: emits_then_eq [OF emits_Write] writeClose_emits)
next
  case 7
  then show ?thesis using assms by (auto simp: writable_def)
qed

text \<open>A frame that is not writable is refused on every stream, after at most a partial record.\<close>

lemma writeHello_refuses:
  "\<not> (\<exists>h. ho = Some h \<and> wf_hello h) \<Longrightarrow> \<exists>e. emits (writeHello ho) [] (Some e)"
  by (cases ho) (auto simp: writeHello_def wf_hello_def intro: emits_fail)

lemma writeKeepalive_refuses: "ko = None \<Longrightarrow> \<exists>e. emits (writeKeepalive ko) [] (Some e)"
  by (auto simp: writeKeepalive_def intro: emits_fail)

lemma writeRekey_refuses:
  "\<not> (\<exists>rk. ro = Some rk \<and> wf_rekey rk) \<Longrightarrow> \<exists>e. emits (writeRekey ro) [] (Some e)"
  by (cases ro) (auto simp: writeRekey_def wf_rekey_def intro: emits_fail)

lemma writeClose_refuses:
  "\<not> (\<exists>c. co = Some c \<and> wf_close c) \<Longrightarrow> \<exists>e. emits (writeClose co) [] (Some e)"
  by (cases co) (auto simp: writeClose_def wf_close_def intro: emits_fail)

lemma writeDNS_refuses:
  "\<not> list_all (\<lambda>ip. length ip \<in> {4, 16}) ips \<Longrightarrow> \<exists>bs e. emits (writeDNS i ips) bs (Some e)"
proof (induction ips arbitrary: i)
  case Nil
  then show ?case by simp
next
  case (Cons ip ips)
  show ?case
  proof (cases "To16 ip")
    case None
    then show ?thesis by (auto intro: emits_fail)
  next
    case (Some v)
    then have "length ip \<in> {4, 16}" by (auto simp: To16_def split: if_splits)
    with Cons.prems Cons.IH [of "Suc i"] obtain bs e where "emits (writeDNS (Suc i) ips) bs (Some e)"
      by auto
    with Some show ?thesis by (auto intro: emits_then [OF emits_Write])
  qed
qed

lemma writeIP16_refuses: "length ip \<notin> {0, 4, 16} \<Longrightarrow> \<exists>e. emits (writeIP16 ip 16) [] (Some e)"
  by (auto simp: writeIP16_def To16_def intro: emits_fail)

lemma writeSession_refuses:
  assumes "\<not> (\<exists>s. so = Some s \<and> length (DNSServers s) \<le> MaxDNSEntries
    \<and> length (AssignedIPv6 s) \<in> {0, 4, 16} \<and> list_all (\<lambda>ip. length ip \<in> {4, 16}) (DNSServers s))"
  shows "\<exists>bs e. emits (writeSession so) bs (Some e)"
proof (cases so)
  case None
  then show ?thesis by (auto simp: writeSession_def intro: emits_fail)
next
  case (Some s)
  let ?w4 = "wr_map_error (\<lambda>e. Errorf [Txt ''tunnelpb: Session.AssignedIPv4: '', W e])
    (writeIP (case To4 (AssignedIPv4 s) of None \<Rightarrow> [] | Some v \<Rightarrow> v) 4)"
  let ?w6 = "wr_map_error (\<lambda>e. Errorf [Txt ''tunnelpb: Session.AssignedIPv6: '', W e])
    (writeIP16 (AssignedIPv6 s) 16)"
  have w4: "emits ?w4 (enc_opt_ip (canon_ip4 (AssignedIPv4 s))) None"
    by (auto simp flip: canon_ip4_def intro!: emits_map_error [OF writeIP_emits] canon_ip4_length)
  show ?thesis
  proof (cases "length (DNSServers s) \<le> MaxDNSEntries")
    case False
    with Some show ?thesis by (auto simp: writeSession_def intro: emits_fail)
  next
    case True
    have "\<exists>bs e. emits (wr_then ?w6 (writeDNS 0 (DNSServers s))) bs (Some e)"
    proof (cases "length (AssignedIPv6 s) \<in> {0, 4, 16}")
      case True
      with assms Some \<open>length (DNSServers s) \<le> MaxDNSEntries\<close>
      obtain bs e where "emits (writeDNS 0 (DNSServers s)) bs (Some e)"
        using writeDNS_refuses by blast
      then show ?thesis
        by (intro exI) (rule emits_then [OF emits_map_error [OF writeIP16_emits [OF True]]], simp)
    next
      case False
      then obtain e where "emits (writeIP16 (AssignedIPv6 s) 16) [] (Some e)"
        using writeIP16_refuses by blast
      then show ?thesis by (intro exI) (rule emits_then_stop, erule emits_map_error, simp)
    qed
    then obtain bs e where "emits (wr_then ?w6 (writeDNS 0 (DNSServers s))) bs (Some e)" by blast
    then show ?thesis
      using Some True by (auto simp: writeSession_def intro: emits_then [OF emits_Write] emits_then [OF w4])
  qed
qed

lemma WriteFrame_refuses:
  assumes "\<not> writable f"
  shows "\<exists>bs e. emits (WriteFrame f) bs (Some e)"
proof (cases rule: tag_cases [of "Tag f"])
  case 1
  then show ?thesis using assms by (auto simp: WriteFrame_def writable_def intro: emits_fail)
next
  case 2
  with assms have "\<not> (\<exists>h. Hello f = Some h \<and> wf_hello h)" by (auto simp: writable_def tag_simps)
  from writeHello_refuses [OF this] 2 show ?thesis
    by (auto simp: WriteFrame_def tag_simps intro: emits_then [OF emits_Write])
next
  case 3
  with assms have "\<exists>bs e. emits (writeSession (Session f)) bs (Some e)"
    by (intro writeSession_refuses) (auto simp: writable_def tag_simps)
  with 3 show ?thesis by (auto simp: WriteFrame_def tag_simps intro: emits_then [OF emits_Write])
next
  case 4
  with assms have "Keepalive f = None" by (auto simp: writable_def tag_simps)
  from writeKeepalive_refuses [OF this] 4 show ?thesis
    by (auto simp: WriteFrame_def tag_simps intro: emits_then [OF emits_Write])
next
  case 5
  with assms have "\<not> (\<exists>rk. Rekey f = Some rk \<and> wf_rekey rk)" by (auto simp: writable_def tag_simps)
  from writeRekey_refuses [OF this] 5 show ?thesis
    by (auto simp: WriteFrame_def tag_simps intro: emits_then [OF emits_Write])
next
  case 6
  with assms have "\<not> (\<exists>c. Close f = Some c \<and> wf_close c)" by (auto simp: writable_def tag_simps)
  from writeClose_refuses [OF this] 6 show ?thesis
    by (auto simp: WriteFrame_def tag_simps intro: emits_then [OF emits_Write])
next
  case 7
  then show ?thesis by (auto simp: WriteFrame_def intro: emits_fail)
qed

section \<open>ReadFrame as one reader\<close>

text \<open>
  \<open>ReadFrame\<close> without the frame pointer it returns next to an error: the reader of the tag
  followed by the reader of the body the tag selects.
\<close>

definition frame_body :: "byte \<Rightarrow> frame rd" where
  "frame_body tag =
     (if tag = TagIPv4 \<or> tag = TagIPv6 then packet_body tag
      else if tag = TagHello then rd_bind readHello (\<lambda>x. rd_return ((bare_frame tag)\<lparr>Hello := Some x\<rparr>))
      else if tag = TagSession then rd_bind readSession (\<lambda>x. rd_return ((bare_frame tag)\<lparr>Session := Some x\<rparr>))
      else if tag = TagKeepalive then rd_bind readKeepalive (\<lambda>x. rd_return ((bare_frame tag)\<lparr>Keepalive := Some x\<rparr>))
      else if tag = TagRekey then rd_bind readRekey (\<lambda>x. rd_return ((bare_frame tag)\<lparr>Rekey := Some x\<rparr>))
      else if tag = TagClose then rd_bind readClose (\<lambda>x. rd_return ((bare_frame tag)\<lparr>Close := Some x\<rparr>))
      else rd_fail (unknown_tag tag))"

definition frame_rd :: "frame rd" where
  "frame_rd = rd_bind (rd_full 1 tag_error) (\<lambda>tagBuf. frame_body (tagBuf ! 0))"

lemma ReadFrame_rd:
  "(case frame_rd r of
      (Inr f, r') \<Rightarrow> ReadFrame r = ((Some f, None), r')
    | (Inl e, r') \<Rightarrow> \<exists>fo. ReadFrame r = ((fo, Some e), r'))"
proof (cases "io_ReadFull r 1")
  case (Pair a r1)
  show ?thesis
  proof (cases a)
    case (Inl e)
    with Pair show ?thesis by (simp add: frame_rd_def rd_bind_def rd_full_def ReadFrame_def)
  next
    case (Inr tagBuf)
    with Pair have *: "frame_rd r = frame_body (tagBuf ! 0) r1"
      by (simp add: frame_rd_def rd_bind_def rd_full_def)
    show ?thesis unfolding *
    proof (cases rule: tag_cases [of "tagBuf ! 0"])
      case 1
      with Pair Inr show "case frame_body (tagBuf ! 0) r1 of
          (Inr f, r') \<Rightarrow> ReadFrame r = ((Some f, None), r')
        | (Inl e, r') \<Rightarrow> \<exists>fo. ReadFrame r = ((fo, Some e), r')"
        by (auto simp: ReadFrame_def frame_body_def Let_def split: prod.splits sum.splits)
    next
      case 7
      with Pair Inr show "case frame_body (tagBuf ! 0) r1 of
          (Inr f, r') \<Rightarrow> ReadFrame r = ((Some f, None), r')
        | (Inl e, r') \<Rightarrow> \<exists>fo. ReadFrame r = ((fo, Some e), r')"
        by (simp add: ReadFrame_def frame_body_def Let_def rd_fail_def)
    qed (use Pair Inr in \<open>auto simp: ReadFrame_def frame_body_def Let_def tag_simps control_result_def
        rd_bind_def rd_return_def split: prod.splits sum.splits\<close>)
  qed
qed

lemma ReadFrame_ok: "ReadFrame r = ((Some f, None), r') \<longleftrightarrow> frame_rd r = (Inr f, r')"
  using ReadFrame_rd [of r] by (auto split: prod.splits sum.splits)

lemma ReadFrame_err: "(\<exists>fo. ReadFrame r = ((fo, Some e), r')) \<longleftrightarrow> frame_rd r = (Inl e, r')"
  using ReadFrame_rd [of r] by (auto split: prod.splits sum.splits)

lemma packet_body_decodes:
  assumes "0 < length p" "length p \<le> MaxIPPacket"
  shows "decodes (packet_body t) (PutUint16 (word_of_nat (length p)) @ p) ((bare_frame t)\<lparr>Packet := Some p\<rparr>)"
proof -
  have n: "unat (word_of_nat (length p) :: u16) = length p"
    using assms(2) by (simp add: unat_of_nat MaxIPPacket_def)
  then have nz: "(word_of_nat (length p) :: u16) \<noteq> 0" using assms(1) by (metis not_gr_zero unat_0)
  show ?thesis
    unfolding packet_body_def
    by (rule decodes_bind_eq [OF decodes_full, where bs = "PutUint16 (word_of_nat (length p))"])
      (auto simp: Let_def n nz simp del: word_of_nat_eq_0_iff
        intro!: decodes_bind_eq [OF decodes_full] decodes_return)
qed

lemma packet_body_accepts:
  "accepts (packet_body t) (\<lambda>f bs. \<exists>p. 0 < length p \<and> length p \<le> MaxIPPacket
     \<and> f = (bare_frame t)\<lparr>Packet := Some p\<rparr> \<and> bs = PutUint16 (word_of_nat (length p)) @ p)"
  unfolding packet_body_def Let_def
proof (rule accepts_bind [where Q = "\<lambda>l bs. bs = l \<and> length l = 2"])
  show "accepts (rd_full 2 (short_read ''packet length'')) (\<lambda>l bs. bs = l \<and> length l = 2)"
    by (rule accepts_full) simp
next
  fix l bs :: bytes
  assume l: "bs = l \<and> length l = 2"
  have "unat (Uint16 l) < 2 ^ LENGTH(16)" by (rule unsigned_less)
  moreover have "Uint16 l \<noteq> 0 \<Longrightarrow> 0 < unat (Uint16 l)" by (simp add: unat_gt_0)
  ultimately show "accepts (if Uint16 l = 0 then rd_fail (bad_length ''zero-length packet'')
      else rd_bind (rd_full (unat (Uint16 l)) (short_read ''packet body''))
        (\<lambda>buf. rd_return ((bare_frame t)\<lparr>Packet := Some buf\<rparr>)))
     (\<lambda>f cs. \<exists>p. 0 < length p \<and> length p \<le> MaxIPPacket \<and> f = (bare_frame t)\<lparr>Packet := Some p\<rparr>
        \<and> bs @ cs = PutUint16 (word_of_nat (length p)) @ p)"
    using l by (auto simp: MaxIPPacket_def PutUint16_Uint16
        intro!: step_intros accepts_bind [where Q = "\<lambda>buf cs. cs = buf \<and> length buf = unat (Uint16 l)"])
qed

lemma packet_body_truncates:
  assumes "0 < length p" "length p \<le> MaxIPPacket"
  shows "truncates (packet_body t) (PutUint16 (word_of_nat (length p)) @ p)
    (\<lambda>e. errors_Is e ErrShortRead \<and> \<not> errors_Is e EOF)"
proof -
  have n: "unat (word_of_nat (length p) :: u16) = length p"
    using assms(2) by (simp add: unat_of_nat MaxIPPacket_def)
  then have nz: "(word_of_nat (length p) :: u16) \<noteq> 0" using assms(1) by (metis not_gr_zero unat_0)
  show ?thesis
    unfolding packet_body_def
    by (rule truncates_bind_eq [where bs = "PutUint16 (word_of_nat (length p))", OF truncates_full decodes_full])
      (auto simp: Let_def n nz simp del: word_of_nat_eq_0_iff
        intro!: truncates_bind_eq [where bs = p and x = p and cs = "[]"] step_intros)
qed

text \<open>Body layout and body reader of each kind of canonical frame.\<close>

lemma enc_body_simps:
  "enc_body ((bare_frame TagIPv4)\<lparr>Packet := Some p\<rparr>) = PutUint16 (word_of_nat (length p)) @ p"
  "enc_body ((bare_frame TagIPv6)\<lparr>Packet := Some p\<rparr>) = PutUint16 (word_of_nat (length p)) @ p"
  "enc_body ((bare_frame TagHello)\<lparr>Hello := Some h\<rparr>) = enc_hello h"
  "enc_body ((bare_frame TagSession)\<lparr>Session := Some s\<rparr>) = enc_session s"
  "enc_body ((bare_frame TagKeepalive)\<lparr>Keepalive := Some k\<rparr>) = enc_keepalive k"
  "enc_body ((bare_frame TagRekey)\<lparr>Rekey := Some rk\<rparr>) = enc_rekey rk"
  "enc_body ((bare_frame TagClose)\<lparr>Close := Some c\<rparr>) = enc_close c"
  by (simp_all add: enc_body_def bare_frame_def packet_bytes_def tag_simps)

lemma frame_body_simps:
  "frame_body TagIPv4 = packet_body TagIPv4"
  "frame_body TagIPv6 = packet_body TagIPv6"
  "frame_body TagHello = rd_bind readHello (\<lambda>x. rd_return ((bare_frame TagHello)\<lparr>Hello := Some x\<rparr>))"
  "frame_body TagSession = rd_bind readSession (\<lambda>x. rd_return ((bare_frame TagSession)\<lparr>Session := Some x\<rparr>))"
  "frame_body TagKeepalive = rd_bind readKeepalive (\<lambda>x. rd_return ((bare_frame TagKeepalive)\<lparr>Keepalive := Some x\<rparr>))"
  "frame_body TagRekey = rd_bind readRekey (\<lambda>x. rd_return ((bare_frame TagRekey)\<lparr>Rekey := Some x\<rparr>))"
  "frame_body TagClose = rd_bind readClose (\<lambda>x. rd_return ((bare_frame TagClose)\<lparr>Close := Some x\<rparr>))"
  by (simp_all add: frame_body_def tag_simps)

lemma Tag_bare [simp]: "Tag (bare_frame t) = t"
  by (simp add: bare_frame_def)

lemma wf_frame_cases [consumes 1, case_names IPv4 IPv6 Hello Session Keepalive Rekey Close]:
  assumes "wf_frame f"
  obtains p where "0 < length p" "length p \<le> MaxIPPacket" "f = (bare_frame TagIPv4)\<lparr>Packet := Some p\<rparr>"
    | p where "0 < length p" "length p \<le> MaxIPPacket" "f = (bare_frame TagIPv6)\<lparr>Packet := Some p\<rparr>"
    | h where "wf_hello h" "f = (bare_frame TagHello)\<lparr>Hello := Some h\<rparr>"
    | s where "wf_session s" "f = (bare_frame TagSession)\<lparr>Session := Some s\<rparr>"
    | k where "f = (bare_frame TagKeepalive)\<lparr>Keepalive := Some k\<rparr>"
    | rk where "wf_rekey rk" "f = (bare_frame TagRekey)\<lparr>Rekey := Some rk\<rparr>"
    | c where "wf_close c" "f = (bare_frame TagClose)\<lparr>Close := Some c\<rparr>"
  using assms unfolding wf_frame_def by blast

lemma decodes_then_return: "decodes m bs x \<Longrightarrow> decodes (rd_bind m (\<lambda>x. rd_return (g x))) bs (g x)"
  by (rule decodes_bind_eq [OF _ decodes_return]) auto

lemma accepts_weaken: "accepts m P \<Longrightarrow> (\<And>x bs. P x bs \<Longrightarrow> Q x bs) \<Longrightarrow> accepts m Q"
  unfolding accepts_def by metis

lemma accepts_then_return:
  "accepts m Q \<Longrightarrow> (\<And>x bs. Q x bs \<Longrightarrow> P (g x) bs) \<Longrightarrow> accepts (rd_bind m (\<lambda>x. rd_return (g x))) P"
  by (erule accepts_bind) (auto intro: accepts_return)

lemma truncates_then_return:
  "decodes m bs x \<Longrightarrow> truncates m bs Q \<Longrightarrow> truncates (rd_bind m (\<lambda>x. rd_return (g x))) bs Q"
  by (rule truncates_bind_eq [OF _ _ truncates_return]) auto

lemma frame_body_decodes: "wf_frame f \<Longrightarrow> decodes (frame_body (Tag f)) (enc_body f) f"
  by (cases rule: wf_frame_cases, assumption)
    (simp_all add: frame_body_simps enc_body_simps packet_body_decodes
      decodes_then_return [where g = "\<lambda>x. (bare_frame TagHello)\<lparr>Hello := Some x\<rparr>", OF readHello_decodes]
      decodes_then_return [where g = "\<lambda>x. (bare_frame TagSession)\<lparr>Session := Some x\<rparr>", OF readSession_decodes]
      decodes_then_return [where g = "\<lambda>x. (bare_frame TagKeepalive)\<lparr>Keepalive := Some x\<rparr>", OF readKeepalive_decodes]
      decodes_then_return [where g = "\<lambda>x. (bare_frame TagRekey)\<lparr>Rekey := Some x\<rparr>", OF readRekey_decodes]
      decodes_then_return [where g = "\<lambda>x. (bare_frame TagClose)\<lparr>Close := Some x\<rparr>", OF readClose_decodes])

lemma frame_body_accepts: "accepts (frame_body t) (\<lambda>f bs. wf_frame f \<and> Tag f = t \<and> bs = enc_body f)"
proof (cases rule: tag_cases [of t])
  case 1
  then have "accepts (packet_body t) (\<lambda>f bs. wf_frame f \<and> Tag f = t \<and> bs = enc_body f)"
    by (intro accepts_weaken [OF packet_body_accepts]) (auto simp: enc_body_simps wf_frame_def)
  with 1 show ?thesis by (auto simp: frame_body_simps)
next
  case 7
  then show ?thesis by (simp add: frame_body_def accepts_fail)
next
  case 2
  show ?thesis unfolding 2 frame_body_simps
    by (rule accepts_then_return [OF readHello_accepts]) (auto simp: enc_body_simps wf_frame_def)
next
  case 3
  show ?thesis unfolding 3 frame_body_simps
    by (rule accepts_then_return [OF readSession_accepts]) (auto simp: enc_body_simps wf_frame_def)
next
  case 4
  show ?thesis unfolding 4 frame_body_simps
    by (rule accepts_then_return [OF readKeepalive_accepts]) (auto simp: enc_body_simps wf_frame_def)
next
  case 5
  show ?thesis unfolding 5 frame_body_simps
    by (rule accepts_then_return [OF readRekey_accepts]) (auto simp: enc_body_simps wf_frame_def)
next
  case 6
  show ?thesis unfolding 6 frame_body_simps
    by (rule accepts_then_return [OF readClose_accepts]) (auto simp: enc_body_simps wf_frame_def)
qed

lemma frame_body_truncates:
  "wf_frame f \<Longrightarrow> Tag f \<noteq> TagSession \<Longrightarrow>
   truncates (frame_body (Tag f)) (enc_body f) (\<lambda>e. errors_Is e ErrShortRead \<and> \<not> errors_Is e EOF)"
  by (cases rule: wf_frame_cases, assumption)
    (simp_all add: frame_body_simps enc_body_simps packet_body_truncates truncates_then_return
      [OF readHello_decodes readHello_truncates] truncates_then_return [OF readRekey_decodes readRekey_truncates]
      truncates_then_return [OF readKeepalive_decodes readKeepalive_truncates]
      truncates_then_return [OF readClose_decodes readClose_truncates])

lemma frame_rd_decodes: "wf_frame f \<Longrightarrow> decodes frame_rd (enc_frame f) f"
  unfolding frame_rd_def enc_frame_def
  by (rule decodes_bind_eq [where bs = "[Tag f]" and x = "[Tag f]", OF decodes_full])
    (auto intro: frame_body_decodes)

lemma frame_rd_accepts: "accepts frame_rd (\<lambda>f bs. wf_frame f \<and> bs = enc_frame f)"
  unfolding frame_rd_def
proof (rule accepts_bind [where Q = "\<lambda>l bs. bs = l \<and> length l = 1"])
  show "accepts (rd_full 1 tag_error) (\<lambda>l bs. bs = l \<and> length l = 1)"
    by (rule accepts_full) simp
next
  fix l bs :: bytes
  assume "bs = l \<and> length l = 1"
  then obtain t where l: "bs = [t]" "l = [t]" by (auto simp: length_Suc_conv)
  have "accepts (frame_body t) (\<lambda>f cs. wf_frame f \<and> Tag f = t \<and> cs = enc_body f)"
    by (rule frame_body_accepts)
  then show "accepts (frame_body (l ! 0)) (\<lambda>f cs. wf_frame f \<and> bs @ cs = enc_frame f)"
    unfolding l by (fastforce simp: accepts_def enc_frame_def)
qed

text \<open>The frame format meets the contract of a record format.\<close>

interpretation frame_fmt: record_format enc_frame frame_rd wf_frame
  by unfold_locales (auto intro: frame_rd_decodes frame_rd_accepts)

interpretation hello_fmt: record_format enc_hello readHello wf_hello
  by unfold_locales (auto intro: readHello_decodes readHello_accepts)

interpretation session_fmt: record_format enc_session readSession wf_session
  by unfold_locales (auto intro: readSession_decodes readSession_accepts)

interpretation rekey_fmt: record_format enc_rekey readRekey wf_rekey
  by unfold_locales (auto intro: readRekey_decodes readRekey_accepts)

interpretation close_fmt: record_format enc_close readClose wf_close
  by unfold_locales (auto intro: readClose_decodes readClose_accepts)

interpretation keepalive_fmt: record_format enc_keepalive readKeepalive "\<lambda>_. True"
  by unfold_locales (use readKeepalive_accepts in \<open>auto intro: readKeepalive_decodes\<close>)

end
