(* ===== verification/Codec_Correct.thy ===== *)
theory Codec_Correct
  imports Codec
begin

text \<open>
  The properties of the wire codec: round trips in both directions, independence of how the
  transport cuts the stream into chunks, behaviour on truncated input, on refused frames and on
  failing writers, and the bounds of a record.
\<close>

section \<open>Canonical frames\<close>

lemma canon_ip16_length: "length ip \<in> {4, 16} \<Longrightarrow> length (canon_ip16 ip) = 16"
  by (auto simp: canon_ip16_def To16_def v4InV6Prefix_def)

lemma canon_ip16_Nil [simp]: "canon_ip16 [] = []"
  by (simp add: canon_ip16_def To16_def)

lemma wf_canon_session:
  assumes "length (DNSServers s) \<le> MaxDNSEntries" "length (AssignedIPv6 s) \<in> {0, 4, 16}"
    "list_all (\<lambda>ip. length ip \<in> {4, 16}) (DNSServers s)"
  shows "wf_session (canon_session s)"
  using assms canon_ip4_length [of "AssignedIPv4 s"] canon_ip16_length [of "AssignedIPv6 s"]
  by (auto simp: wf_session_def canon_session_def list_all_iff canon_ip16_length)

lemma canon_session_id: "wf_session s \<Longrightarrow> canon_session s = s"
proof -
  assume "wf_session s"
  then have "canon_ip4 (AssignedIPv4 s) = AssignedIPv4 s" "canon_ip16 (AssignedIPv6 s) = AssignedIPv6 s"
    "map canon_ip16 (DNSServers s) = DNSServers s"
    by (auto simp: wf_session_def canon_ip4_def canon_ip16_def To4_def To16_def list_all_iff
        intro: map_idI)
  then show ?thesis by (simp add: canon_session_def)
qed

lemma wf_canon_frame:
  assumes "writable f" "Tag f \<in> {TagIPv4, TagIPv6} \<Longrightarrow> packet_bytes f \<noteq> []"
  shows "wf_frame (canon_frame f)"
proof (cases rule: tag_cases [of "Tag f"])
  case 1
  then show ?thesis using assms
    by (auto simp: wf_frame_def canon_frame_def writable_def Let_def)
next
  case 3
  then obtain s where "Session f = Some s" "wf_session (canon_session s)"
    using assms(1) by (auto simp: writable_def tag_simps wf_canon_session split: option.splits)
  with 3 show ?thesis by (auto simp: wf_frame_def canon_frame_def tag_simps Let_def)
qed (use assms(1) in \<open>auto simp: wf_frame_def canon_frame_def writable_def tag_simps Let_def
    split: option.splits\<close>)

lemma wf_packet:
  "t \<in> {TagIPv4, TagIPv6} \<Longrightarrow> p \<noteq> [] \<Longrightarrow> length p \<le> MaxIPPacket \<Longrightarrow> wf_frame ((bare_frame t)\<lparr>Packet := Some p\<rparr>)"
  unfolding wf_frame_def by blast

lemma wf_frame_writable: "wf_frame f \<Longrightarrow> writable f \<and> canon_frame f = f"
  by (cases rule: wf_frame_cases, assumption)
    (auto simp: writable_def canon_frame_def bare_frame_def packet_bytes_def tag_simps Let_def
      canon_session_id, auto simp: wf_session_def tag_simps list_all_iff)

lemma WriteFrame_None:
  assumes "WriteFrame f w = (None, w')"
  shows "writable f \<and> wr_out w' = wr_out w @ enc_frame (canon_frame f)"
proof -
  have "writable f"
  proof (rule ccontr)
    assume "\<not> writable f"
    then obtain bs e where "emits (WriteFrame f) bs (Some e)" using WriteFrame_refuses by blast
    from emits_prefix [OF this, of w] assms show False by auto
  qed
  with emits_prefix [OF WriteFrame_emits, of f w] assms show ?thesis by auto
qed

lemma WriteFrame_appends: "\<exists>p. wr_out (snd (WriteFrame f w)) = wr_out w @ p"
proof (cases "writable f")
  case True
  from emits_prefix [OF WriteFrame_emits [OF True], of w] show ?thesis by auto
next
  case False
  then obtain bs e where "emits (WriteFrame f) bs (Some e)" using WriteFrame_refuses by blast
  from emits_prefix [OF this, of w] show ?thesis by auto
qed

section \<open>Round trips\<close>

text \<open>
  C3: a frame that \<open>WriteFrame\<close> accepted and that is not an empty packet is read back by
  \<open>ReadFrame\<close> from any stream that delivers the written bytes, whatever follows them and however
  the stream is cut into chunks: the reader gets the frame in its canonical form and stops
  exactly at the end of the record.
\<close>

theorem WriteFrame_ReadFrame_roundtrip:
  assumes "WriteFrame f w = (None, w')"
    and "Tag f \<in> {TagIPv4, TagIPv6} \<Longrightarrow> packet_bytes f \<noteq> []"
    and "wr_out w' = wr_out w @ bs" and "rd_bytes r = bs @ rest"
  shows "\<exists>r'. ReadFrame r = ((Some (canon_frame f), None), r') \<and> rd_bytes r' = rest \<and> rd_err r' = rd_err r"
proof -
  from WriteFrame_None [OF assms(1)] assms(3) have "writable f" "bs = enc_frame (canon_frame f)" by auto
  then show ?thesis
    using frame_fmt.decode_head [OF wf_canon_frame] assms(2,4) by (auto simp: ReadFrame_ok)
qed

definition sample_packet :: frame where
  "sample_packet = (bare_frame TagIPv4)\<lparr>Packet := Some [0x45, 0, 7]\<rparr>"

definition sample_reader :: io_reader where
  "sample_reader = \<lparr>rd_chunks = [[0x04, 0], [3, 0x45], [], [0, 7, 0x12]], rd_err = Sentinel EOF, rd_eager = True\<rparr>"

theorem WriteFrame_ReadFrame_roundtrip_witness:
  "\<exists>r'. ReadFrame sample_reader = ((Some (canon_frame sample_packet), None), r') \<and> rd_bytes r' = [0x12]
     \<and> rd_err r' = Sentinel EOF"
proof -
  define w where "w = \<lparr>wr_out = [], wr_faults = []\<rparr>"
  have w: "WriteFrame sample_packet w = (None, w\<lparr>wr_out := [0x04, 0, 3, 0x45, 0, 7]\<rparr>)"
    by (simp add: w_def WriteFrame_def sample_packet_def bare_frame_def packet_bytes_def tag_simps
        wr_then_def io_Write_def PutUint16_def)
  show ?thesis
    using WriteFrame_ReadFrame_roundtrip [OF w, of "[0x04, 0, 3, 0x45, 0, 7]" sample_reader "[0x12]"]
    by (simp add: w_def sample_packet_def bare_frame_def packet_bytes_def sample_reader_def rd_bytes_def)
qed

text \<open>
  C4: the decoder is canonical. Whatever \<open>ReadFrame\<close> accepts is a well-formed frame, and
  writing that frame produces exactly the bytes that were consumed: no two byte strings decode
  to the same frame, and no accepted record has a second spelling.
\<close>

theorem ReadFrame_canonical:
  assumes "ReadFrame r = ((Some f, None), r')" and "wr_faults w = []"
  shows "wf_frame f \<and> (\<exists>bs. WriteFrame f w = (None, w\<lparr>wr_out := wr_out w @ bs\<rparr>)
    \<and> rd_bytes r = bs @ rd_bytes r')"
proof -
  from assms(1) have "frame_rd r = (Inr f, r')" by (simp add: ReadFrame_ok)
  from frame_fmt.decode_canonical [OF this] have wf: "wf_frame f" "rd_bytes r = enc_frame f @ rd_bytes r'"
    by auto
  with wf_frame_writable [OF wf(1)] emits_faultfree [OF WriteFrame_emits assms(2), of f] show ?thesis
    by auto
qed

theorem ReadFrame_canonical_witness:
  "wf_frame ((bare_frame TagKeepalive)\<lparr>Keepalive := Some \<lparr>Nonce = 258\<rparr>\<rparr>) \<and>
   (\<exists>bs. WriteFrame ((bare_frame TagKeepalive)\<lparr>Keepalive := Some \<lparr>Nonce = 258\<rparr>\<rparr>) \<lparr>wr_out = [], wr_faults = []\<rparr>
      = (None, \<lparr>wr_out = bs, wr_faults = []\<rparr>) \<and> [0x12, 0, 0, 0, 0, 0, 0, 1, 2] = bs)"
proof -
  define r where "r = \<lparr>rd_chunks = [[0x12, 0, 0, 0, 0, 0, 0, 1, 2]], rd_err = Sentinel EOF, rd_eager = False\<rparr>"
  define r' where "r' = r\<lparr>rd_chunks := []\<rparr>"
  have "ReadFrame r = ((Some ((bare_frame TagKeepalive)\<lparr>Keepalive := Some \<lparr>Nonce = 258\<rparr>\<rparr>), None), r')"
    by (simp add: r_def r'_def ReadFrame_def io_ReadFull_def ReadAtLeast.simps io_Read_def tag_simps
        control_result_def readKeepalive_def rd_bind_def rd_full_def rd_return_def)
  from ReadFrame_canonical [OF this, of "\<lparr>wr_out = [], wr_faults = []\<rparr>"] show ?thesis
    by (simp add: r_def r'_def rd_bytes_def)
qed

section \<open>Fragmentation\<close>

lemma readIP_chunk_blind: "chunk_blind (readIP n)"
  unfolding readIP_def by (intro step_intros)

lemma readDNS_chunk_blind: "chunk_blind (readDNS i n)"
  by (induction n arbitrary: i) (auto intro!: step_intros)

lemma packet_body_chunk_blind: "chunk_blind (packet_body t)"
  unfolding packet_body_def Let_def by (intro step_intros)

lemma readHello_chunk_blind: "chunk_blind readHello"
  unfolding readHello_def Let_def by (intro step_intros)

lemma readSession_chunk_blind: "chunk_blind readSession"
  unfolding readSession_def Let_def readIP16_eq
  by (intro step_intros readIP_chunk_blind readDNS_chunk_blind)

lemma readKeepalive_chunk_blind: "chunk_blind readKeepalive"
  unfolding readKeepalive_def by (intro step_intros)

lemma readRekey_chunk_blind: "chunk_blind readRekey"
  unfolding readRekey_def by (intro step_intros)

lemma readClose_chunk_blind: "chunk_blind readClose"
  unfolding readClose_def Let_def by (intro step_intros)

lemma frame_rd_chunk_blind: "chunk_blind frame_rd"
  unfolding frame_rd_def frame_body_def
  by (intro step_intros packet_body_chunk_blind readHello_chunk_blind readSession_chunk_blind
      readKeepalive_chunk_blind readRekey_chunk_blind readClose_chunk_blind)

text \<open>
  C21: what \<open>ReadFrame\<close> returns, frame or error, depends only on the bytes the stream delivers
  and on the error it ends with. Short reads, empty reads and an error that arrives together
  with the last bytes make no difference, and the bytes left over are the same.
\<close>

theorem ReadFrame_fragmentation:
  assumes "rd_bytes r1 = rd_bytes r2" and "rd_err r1 = rd_err r2"
  shows "snd (fst (ReadFrame r1)) = snd (fst (ReadFrame r2))
    \<and> (snd (fst (ReadFrame r1)) = None \<longrightarrow> fst (fst (ReadFrame r1)) = fst (fst (ReadFrame r2)))
    \<and> rd_bytes (snd (ReadFrame r1)) = rd_bytes (snd (ReadFrame r2))"
proof -
  have "rd_same r1 r2" using assms by (simp add: rd_same_def)
  from chunk_blindD [OF frame_rd_chunk_blind this] have
    "fst (frame_rd r1) = fst (frame_rd r2)" "rd_bytes (snd (frame_rd r1)) = rd_bytes (snd (frame_rd r2))"
    by (simp_all add: rd_same_def)
  then obtain a r1' r2' where fr: "frame_rd r1 = (a, r1')" "frame_rd r2 = (a, r2')" "rd_bytes r1' = rd_bytes r2'"
    by (metis prod.collapse)
  show ?thesis
  proof (cases a)
    case (Inl e)
    with fr obtain f1 f2 where "ReadFrame r1 = ((f1, Some e), r1')" "ReadFrame r2 = ((f2, Some e), r2')"
      using ReadFrame_rd [of r1] ReadFrame_rd [of r2] by auto
    with fr(3) show ?thesis by simp
  next
    case (Inr f)
    with fr have "ReadFrame r1 = ((Some f, None), r1')" "ReadFrame r2 = ((Some f, None), r2')"
      by (simp_all add: ReadFrame_ok)
    with fr(3) show ?thesis by simp
  qed
qed

theorem ReadFrame_fragmentation_witness:
  "snd (fst (ReadFrame sample_reader))
     = snd (fst (ReadFrame \<lparr>rd_chunks = [[0x04, 0, 3, 0x45, 0, 7, 0x12]], rd_err = Sentinel EOF, rd_eager = False\<rparr>))"
  using ReadFrame_fragmentation [of sample_reader
      "\<lparr>rd_chunks = [[0x04, 0, 3, 0x45, 0, 7, 0x12]], rd_err = Sentinel EOF, rd_eager = False\<rparr>"]
  by (simp add: sample_reader_def rd_bytes_def)

section \<open>Truncated input\<close>

lemma control_result_error:
  "rd_bind m (\<lambda>x. rd_return (g x)) r = (Inl e, r') \<Longrightarrow>
   \<forall>t put. control_result m t put r = ((Some (put None (bare_frame t)), Some e), r')"
  by (auto simp: control_result_def rd_bind_def rd_return_def split: prod.splits sum.splits)

lemma ReadFrame_error_frame:
  assumes "io_ReadFull r 1 = (Inr [t], r1)" "frame_body t r1 = (Inl e, r')"
    "t \<in> {TagIPv4, TagIPv6, TagHello, TagSession, TagKeepalive, TagRekey, TagClose}"
  shows "ReadFrame r = ((if t \<in> {TagIPv4, TagIPv6} then None else Some (bare_frame t), Some e), r')"
proof -
  have "ReadFrame r = ((if t \<in> {TagIPv4, TagIPv6} then None else Some (bare_frame t), Some e), r')"
    if "t \<in> {TagIPv4, TagIPv6}" using that assms(1,2) by (auto simp: ReadFrame_def frame_body_def)
  moreover have "ReadFrame r = ((Some (bare_frame t), Some e), r')" if "t \<in> {TagHello, TagSession, TagKeepalive, TagRekey, TagClose}"
    by (use that in \<open>elim insertE emptyE\<close>)
      (use assms(1,2) in \<open>auto simp: ReadFrame_def frame_body_def Let_def tag_simps bare_frame_def dest!: control_result_error\<close>)
  ultimately show ?thesis using assms(3) by (auto simp: tag_simps)
qed

text \<open>
  C22: a stream that ends inside a record other than a Session record is reported with an error that is
  \<^verbatim>\<open>ErrShortRead\<close> and never \<^verbatim>\<open>io.EOF\<close>: a receiver cannot mistake a cut-off record for the
  peer's orderly end of stream. The frame pointer beside that error is nil for a packet; for a control
  record it is a frame with the tag and no content, so no part of the cut record is delivered.
\<close>

theorem ReadFrame_truncated:
  assumes "wf_frame f" and "Tag f \<noteq> TagSession"
    and "strict_prefix (rd_bytes r) (enc_frame f)" and "rd_bytes r \<noteq> []" and "rd_err r = Sentinel EOF"
  shows "\<exists>e r'. ReadFrame r = ((if Tag f \<in> {TagIPv4, TagIPv6} then None else Some (bare_frame (Tag f)), Some e), r') \<and>
    errors_Is e ErrShortRead \<and> \<not> errors_Is e EOF"
proof -
  from assms(3,4) obtain bs where bs: "rd_bytes r = [Tag f] @ bs" "strict_prefix bs (enc_body f)"
    by (cases "rd_bytes r") (auto simp: enc_frame_def strict_prefix_def)
  have "decodes (rd_full 1 tag_error) [Tag f] [Tag f]" by (intro step_intros) auto
  from decodes_apply [OF this bs(1)] obtain r1 where
    r1: "rd_full 1 tag_error r = (Inr [Tag f], r1)" "rd_bytes r1 = bs" "rd_err r1 = Sentinel EOF"
    using assms(5) by auto
  with frame_body_truncates [OF assms(1,2)] bs(2) obtain e r' where
    "frame_body (Tag f) r1 = (Inl e, r')" "errors_Is e ErrShortRead" "\<not> errors_Is e EOF"
    by (auto simp: truncates_def)
  moreover have "io_ReadFull r 1 = (Inr [Tag f], r1)" using r1(1) by (auto simp: rd_full_def split: prod.splits sum.splits)
  moreover have "Tag f \<in> {TagIPv4, TagIPv6, TagHello, TagSession, TagKeepalive, TagRekey, TagClose}"
    using assms(1) by (cases rule: wf_frame_cases) (auto simp: bare_frame_def)
  ultimately show ?thesis using ReadFrame_error_frame by blast
qed

theorem ReadFrame_truncated_witness:
  "\<exists>e r'. ReadFrame \<lparr>rd_chunks = [[0x04, 0, 3, 0x45]], rd_err = Sentinel EOF, rd_eager = False\<rparr>
     = ((if Tag sample_packet \<in> {TagIPv4, TagIPv6} then None else Some (bare_frame (Tag sample_packet)), Some e), r') \<and>
     errors_Is e ErrShortRead \<and> \<not> errors_Is e EOF"
proof (rule ReadFrame_truncated [of sample_packet])
  show "wf_frame sample_packet"
    by (simp add: sample_packet_def wf_packet MaxIPPacket_def)
qed (auto simp: sample_packet_def tag_simps enc_frame_def enc_body_def bare_frame_def packet_bytes_def
    PutUint16_def rd_bytes_def)

text \<open>
  C40: the Session record breaks that rule. When the stream ends right after the fixed head of a
  Session record, before the length byte of the assigned IPv4 address, the error \<open>ReadFrame\<close>
  returns satisfies \<^verbatim>\<open>errors.Is(err, io.EOF)\<close> and does not satisfy
  \<^verbatim>\<open>errors.Is(err, ErrShortRead)\<close>.
\<close>

theorem ReadFrame_session_cut_is_EOF:
  assumes "wf_session s" and "rd_bytes r = TagSession # take 5 (enc_session s)"
    and "rd_err r = Sentinel EOF"
  shows "\<exists>fo e r'. ReadFrame r = ((fo, Some e), r') \<and> errors_Is e EOF \<and> \<not> errors_Is e ErrShortRead"
proof -
  let ?head = "[word_of_nat (length (DNSServers s))] @ PutUint32 (MTU s)"
  have n: "unat (word_of_nat (length (DNSServers s)) :: byte) = length (DNSServers s)"
    "\<not> MaxDNSEntries < length (DNSServers s)"
    using assms(1) by (auto simp: wf_session_def MaxDNSEntries_def)
  have bytes: "rd_bytes r = [TagSession] @ ?head" using assms(2) by (simp add: enc_session_def)
  have "decodes (rd_full 1 tag_error) [TagSession] [TagSession]" by (intro step_intros) auto
  from decodes_apply [OF this bytes] obtain r1 where
    r1: "rd_full 1 tag_error r = (Inr [TagSession], r1)" "rd_bytes r1 = ?head @ []" "rd_err r1 = Sentinel EOF"
    using assms(3) by auto
  have "decodes (rd_full 5 (short_read ''Session head'')) ?head ?head" by (intro step_intros) auto
  from decodes_apply [OF this r1(2)] obtain r2 where
    r2: "rd_full 5 (short_read ''Session head'') r1 = (Inr ?head, r2)" "rd_bytes r2 = []" "rd_err r2 = Sentinel EOF"
    using r1(3) by auto
  obtain r3 where r3: "readIP 4 r2 = (Inl (Errorf [Txt ''length byte: '', W (Sentinel EOF)]), r3)"
    using io_ReadFull_short [of r2 1] r2(2,3)
    by (auto simp: readIP_def rd_bind_def rd_full_def short_error_def)
  have "readSession r1 = (Inl (Errorf [Txt ''tunnelpb: Session.AssignedIPv4: '',
      W (Errorf [Txt ''length byte: '', W (Sentinel EOF)])]), r3)"
    using r2 r3 n by (simp add: readSession_def rd_bind_def rd_map_error_def)
  with r1(1) have "frame_rd r = (Inl (Errorf [Txt ''tunnelpb: Session.AssignedIPv4: '',
      W (Errorf [Txt ''length byte: '', W (Sentinel EOF)])]), r3)"
    by (simp add: frame_rd_def rd_bind_def frame_body_simps)
  then have "\<exists>fo. ReadFrame r = ((fo, Some (Errorf [Txt ''tunnelpb: Session.AssignedIPv4: '',
      W (Errorf [Txt ''length byte: '', W (Sentinel EOF)])])), r3)"
    by (simp only: ReadFrame_err)
  then show ?thesis by fastforce
qed

theorem ReadFrame_session_cut_is_EOF_witness:
  "\<exists>fo e r'. ReadFrame \<lparr>rd_chunks = [[0x11], [0, 0, 0, 5, 0xdc]], rd_err = Sentinel EOF, rd_eager = False\<rparr>
     = ((fo, Some e), r') \<and> errors_Is e EOF \<and> \<not> errors_Is e ErrShortRead"
  by (rule ReadFrame_session_cut_is_EOF
      [of "\<lparr>AssignedIPv4 = [], AssignedIPv6 = [], DNSServers = [], MTU = 1500\<rparr>"])
    (simp_all add: wf_session_def rd_bytes_def enc_session_def PutUint32_def tag_simps)

lemma readDNS_raises: "(\<And>what e. P (short_read what e)) \<Longrightarrow> raises (readDNS i n) P"
  by (induction n arbitrary: i) (auto intro!: step_intros)

text \<open>No error of a record body is a sentinel itself: each names the field it happened in.\<close>

lemma frame_body_raises: "raises (frame_body t) (\<lambda>e. \<forall>s. e \<noteq> Sentinel s)"
  unfolding frame_body_def packet_body_def readHello_def readSession_def readKeepalive_def readRekey_def
    readClose_def Let_def
  by (intro step_intros readDNS_raises)
    (auto simp: short_read_def bad_length_def too_long_def unknown_tag_def)

text \<open>
  C23: the documented meaning of a bare \<^verbatim>\<open>io.EOF\<close>. On a stream that ends with
  \<^verbatim>\<open>io.EOF\<close>, \<open>ReadFrame\<close> returns that very value exactly when no byte was left to read.
\<close>

theorem ReadFrame_EOF_iff:
  assumes "rd_err r = Sentinel EOF"
  shows "snd (fst (ReadFrame r)) = Some (Sentinel EOF) \<longleftrightarrow> rd_bytes r = []"
proof (cases "rd_bytes r = []")
  case True
  with assms io_ReadFull_short [of r 1] show ?thesis
    by (auto simp: ReadFrame_def short_error_def tag_error_def)
next
  case False
  then obtain r1 where r1: "rd_full 1 tag_error r = (Inr (take 1 (rd_bytes r)), r1)"
    using io_ReadFull_enough [of 1 r] by (cases "rd_bytes r") (auto simp: rd_full_def)
  then have "frame_rd r = frame_body (take 1 (rd_bytes r) ! 0) r1"
    by (simp add: frame_rd_def rd_bind_def)
  then have "frame_rd r \<noteq> (Inl (Sentinel EOF), r')" for r'
    using frame_body_raises by (auto simp: raises_def)
  then have "ReadFrame r \<noteq> ((fo, Some (Sentinel EOF)), r')" for fo r'
    using ReadFrame_err by blast
  with False show ?thesis by (metis prod.collapse)
qed

theorem ReadFrame_EOF_iff_witness:
  "snd (fst (ReadFrame \<lparr>rd_chunks = [[]], rd_err = Sentinel EOF, rd_eager = True\<rparr>)) = Some (Sentinel EOF)"
  by (subst ReadFrame_EOF_iff) (simp_all add: rd_bytes_def)

section \<open>Refused frames and failing writers\<close>

text \<open>
  C24: \<open>WriteFrame\<close> succeeds on a stream without faults exactly for the writable frames (known
  tag, the announced field present, lengths within the declared limits). On any stream, faulty
  or not, what reaches the stream is a prefix of the canonical record; if no error is returned
  it is the whole record, and a writable frame fails only if a write failed.
\<close>

theorem WriteFrame_total:
  "(wr_faults w = [] \<longrightarrow> (fst (WriteFrame f w) = None \<longleftrightarrow> writable f))
   \<and> (writable f \<longrightarrow> (\<exists>p. wr_out (snd (WriteFrame f w)) = wr_out w @ p \<and> prefix p (enc_frame (canon_frame f))
        \<and> (fst (WriteFrame f w) = None \<longrightarrow> p = enc_frame (canon_frame f))))
   \<and> (\<not> writable f \<longrightarrow> fst (WriteFrame f w) \<noteq> None)"
proof (cases "writable f")
  case True
  with emits_faultfree [OF WriteFrame_emits [OF True], of w] emits_prefix [OF WriteFrame_emits [OF True], of w]
  show ?thesis by auto
next
  case False
  then obtain bs e where "emits (WriteFrame f) bs (Some e)" using WriteFrame_refuses by blast
  from emits_prefix [OF this, of w] False show ?thesis by auto
qed

theorem WriteFrame_total_witness:
  "fst (WriteFrame sample_packet \<lparr>wr_out = [], wr_faults = []\<rparr>) = None \<and>
   (\<exists>p. wr_out (snd (WriteFrame sample_packet \<lparr>wr_out = [1], wr_faults = [None, Some (1, Foreign ''reset'' [])]\<rparr>))
      = [1] @ p \<and> prefix p (enc_frame (canon_frame sample_packet)))"
proof -
  have "writable sample_packet"
    by (simp add: sample_packet_def writable_def bare_frame_def packet_bytes_def tag_simps)
  then show ?thesis
    using WriteFrame_total [of "\<lparr>wr_out = [], wr_faults = []\<rparr>" sample_packet]
      WriteFrame_total [of "\<lparr>wr_out = [1], wr_faults = [None, Some (1, Foreign ''reset'' [])]\<rparr>" sample_packet]
    by auto
qed

text \<open>
  The encoder and the decoder disagree on empty packets. \<open>WriteFrame\<close> accepts a packet
  frame without bytes and writes a complete three-byte record; \<open>ReadFrame\<close> refuses that record
  with \<^verbatim>\<open>ErrLengthInvalid\<close>.
\<close>

lemma empty_packet_asymmetry:
  assumes "Tag f \<in> {TagIPv4, TagIPv6}" and "packet_bytes f = []" and "wr_faults w = []"
  shows "WriteFrame f w = (None, w\<lparr>wr_out := wr_out w @ [Tag f, 0, 0]\<rparr>)
    \<and> (\<forall>r rest. rd_bytes r = [Tag f, 0, 0] @ rest \<longrightarrow>
         (\<exists>e r'. ReadFrame r = ((None, Some e), r') \<and> errors_Is e ErrLengthInvalid \<and> rd_bytes r' = rest))"
proof (intro conjI allI impI)
  show "WriteFrame f w = (None, w\<lparr>wr_out := wr_out w @ [Tag f, 0, 0]\<rparr>)"
    using assms by (auto simp: WriteFrame_def wr_then_def io_Write_def PutUint16_def MaxIPPacket_def)
next
  fix r rest assume r: "rd_bytes r = [Tag f, 0, 0] @ rest"
  then obtain r1 where r1: "io_ReadFull r 1 = (Inr [Tag f], r1)" "rd_bytes r1 = [0, 0] @ rest"
    using io_ReadFull_enough [of 1 r] by (auto simp: rd_after_def)
  then obtain r2 where "io_ReadFull r1 2 = (Inr [0, 0], r2)" "rd_bytes r2 = rest"
    using io_ReadFull_enough [of 2 r1] by (auto simp: rd_after_def)
  with r1 assms(1) show "\<exists>e r'. ReadFrame r = ((None, Some e), r') \<and> errors_Is e ErrLengthInvalid \<and> rd_bytes r' = rest"
    by (auto simp: ReadFrame_def packet_body_def rd_bind_def rd_full_def rd_fail_def)
qed

text \<open>
  A Session whose \<^verbatim>\<open>AssignedIPv4\<close> holds an address with no IPv4 form is written without
  an error, with the field encoded as unset: the length check in \<^verbatim>\<open>writeIP\<close> cannot fire
  behind \<^verbatim>\<open>To4\<close>, and the receiver sees a Session without an IPv4 address.
\<close>

lemma writeSession_drops_bad_ipv4:
  assumes "wf_session s" and "To4 ip = None" and "wr_faults w = []"
  shows "writeSession (Some (s\<lparr>AssignedIPv4 := ip\<rparr>)) w
    = (None, w\<lparr>wr_out := wr_out w @ enc_session (s\<lparr>AssignedIPv4 := []\<rparr>)\<rparr>)"
proof -
  let ?s = "s\<lparr>AssignedIPv4 := ip\<rparr>"
  have "canon_session ?s = (canon_session s)\<lparr>AssignedIPv4 := canon_ip4 ip\<rparr>"
    by (simp add: canon_session_def)
  also have "\<dots> = s\<lparr>AssignedIPv4 := []\<rparr>"
    using assms(1,2) by (simp add: canon_session_id canon_ip4_def)
  finally have c: "canon_session ?s = s\<lparr>AssignedIPv4 := []\<rparr>" .
  have "emits (writeSession (Some ?s)) (enc_session (canon_session ?s)) None"
    using assms(1) by (intro writeSession_emits) (auto simp: wf_session_def list_all_iff)
  from emits_faultfree [OF this assms(3)] show ?thesis by (simp only: c)
qed

section \<open>Bounds\<close>

text \<open>What a call takes off the stream, also when it fails.\<close>

lemma unat_byte_le: "unat (b :: byte) \<le> 255"
  using unsigned_less [of b, where ?'a = nat] by simp

lemma readIP_consumes: "n \<le> 16 \<Longrightarrow> consumes (readIP n) 17"
  unfolding readIP_def Let_def
  by (rule consumes_bind [where a = 1 and b = 16]) (auto intro!: consumes_intros)

lemma readDNS_consumes: "consumes (readDNS i n) (16 * n)"
proof (induction n arbitrary: i)
  case (Suc n)
  show ?case
    by (auto intro!: consumes_bind [where a = 16 and b = "16 * n"] consumes_bind [OF Suc.IH, where b = 0] consumes_intros)
qed (simp add: consumes_return)

lemma packet_body_consumes: "consumes (packet_body t) 65537"
proof -
  have "unat (n :: 16 word) \<le> 65535" for n using unsigned_less [of n, where ?'a = nat] by simp
  then show ?thesis unfolding packet_body_def Let_def
    by (intro consumes_bind [where a = 2 and b = 65535 and c = 65537] consumes_intros
        consumes_bind [where a = 65535 and b = 0 and c = 65535]) auto
qed

lemma readHello_consumes: "consumes readHello 65537"
  unfolding readHello_def Let_def
  by (intro consumes_bind [where a = 9 and b = 255 and c = 65537] consumes_bind [where a = 255 and b = 0 and c = 255]
      consumes_intros) (auto simp: unat_byte_le)

lemma readClose_consumes: "consumes readClose 65537"
  unfolding readClose_def Let_def
  by (intro consumes_bind [where a = 5 and b = 255 and c = 65537] consumes_bind [where a = 255 and b = 0 and c = 255]
      consumes_intros) (auto simp: unat_byte_le)

lemma readKeepalive_consumes: "consumes readKeepalive 65537"
  unfolding readKeepalive_def by (intro consumes_bind [where a = 8 and b = 0 and c = 65537] consumes_intros) auto

lemma readRekey_consumes: "consumes readRekey 65537"
  unfolding readRekey_def
  by (intro consumes_bind [where a = 32 and b = 1192 and c = 65537] consumes_bind [where a = 1184 and b = 8 and c = 1192]
      consumes_bind [where a = 8 and b = 0 and c = 8] consumes_intros) auto

lemma readSession_consumes: "consumes readSession 65537"
  unfolding readSession_def Let_def readIP16_eq
proof (intro consumes_bind [where a = 5 and b = 65532 and c = 65537] consumes_intros)
  fix head :: bytes
  let ?n = "unat (head ! 0)"
  have d: "consumes (readDNS 0 ?n) 4080"
    by (rule consumes_mono [OF readDNS_consumes]) (use unat_byte_le [of "head ! 0"] in simp)
  show "consumes (rd_bind (rd_map_error (\<lambda>e. Errorf [Txt ''tunnelpb: Session.AssignedIPv4: '', W e]) (readIP 4))
    (\<lambda>v4. rd_bind (rd_map_error (\<lambda>e. Errorf [Txt ''tunnelpb: Session.AssignedIPv6: '', W e]) (readIP 16))
      (\<lambda>v6. rd_bind (readDNS 0 ?n)
        (\<lambda>dns. rd_return \<lparr>AssignedIPv4 = v4, AssignedIPv6 = v6, DNSServers = dns, MTU = Uint32 (drop 1 head)\<rparr>)))) 65532"
    by (intro consumes_bind [where a = 17 and b = 65515 and c = 65532] consumes_bind [where a = 17 and b = 65498 and c = 65515]
        consumes_bind [OF d, where b = 0] consumes_map_error readIP_consumes consumes_return) auto
qed auto

lemma frame_body_consumes: "consumes (frame_body t) 65537"
  unfolding frame_body_def
  by (intro consumes_intros packet_body_consumes consumes_bind [where a = 65537 and b = 0 and c = 65537]
      readHello_consumes readSession_consumes readKeepalive_consumes readRekey_consumes readClose_consumes) auto

text \<open>
  C25: one call of \<open>ReadFrame\<close>, successful or not, whatever the peer sends, takes at most 65538 bytes off
  the front of the stream (a tag, a two-byte length and a maximal packet) and leaves the rest
  untouched; a successful call takes at least one byte.
\<close>

theorem ReadFrame_bounded:
  "\<exists>p. rd_bytes r = p @ rd_bytes (snd (ReadFrame r)) \<and> length p \<le> 65538 \<and>
     (snd (fst (ReadFrame r)) = None \<longrightarrow> p \<noteq> [])"
proof -
  have "consumes frame_rd 65538" unfolding frame_rd_def
    by (intro consumes_bind [where a = 1 and b = 65537 and c = 65538] consumes_intros frame_body_consumes) auto
  then obtain p where p: "rd_bytes r = p @ rd_bytes (snd (frame_rd r))" "length p \<le> 65538" by (auto simp: consumes_def)
  have same: "snd (ReadFrame r) = snd (frame_rd r)" using ReadFrame_rd [of r] by (auto split: prod.splits sum.splits)
  have "p \<noteq> []" if ok: "snd (fst (ReadFrame r)) = None"
  proof -
    have "\<exists>f r'. frame_rd r = (Inr f, r')"
      using ReadFrame_rd [of r] ok by (cases "frame_rd r"; cases "fst (frame_rd r)") auto
    then obtain f r' where f: "frame_rd r = (Inr f, r')" by blast
    from frame_fmt.decode_canonical [OF f] p(1) f show ?thesis by (auto simp: enc_frame_def)
  qed
  with p same show ?thesis by auto
qed

theorem ReadFrame_bounded_witness:
  "\<exists>p. rd_bytes \<lparr>rd_chunks = [[0x06, 0, 1, 0x60, 9]], rd_err = Sentinel EOF, rd_eager = False\<rparr> = p @ [9] \<and> p \<noteq> [] \<and>
     length p \<le> 65538"
proof -
  have "ReadFrame \<lparr>rd_chunks = [[0x06, 0, 1, 0x60, 9]], rd_err = Sentinel EOF, rd_eager = False\<rparr>
    = ((Some ((bare_frame TagIPv6)\<lparr>Packet := Some [0x60]\<rparr>), None),
       \<lparr>rd_chunks = [[9]], rd_err = Sentinel EOF, rd_eager = False\<rparr>)"
    by (simp add: ReadFrame_def io_ReadFull_def ReadAtLeast.simps io_Read_def tag_simps
        packet_body_def rd_bind_def rd_full_def rd_return_def Let_def)
  with ReadFrame_bounded [of "\<lparr>rd_chunks = [[0x06, 0, 1, 0x60, 9]], rd_err = Sentinel EOF, rd_eager = False\<rparr>"] show ?thesis
    by (simp add: rd_bytes_def)
qed

end
