(* ===== verification/Codec_Stream.thy ===== *)
theory Codec_Stream
  imports Codec_Correct
begin

text \<open>
  \<^verbatim>\<open>ReadFrame\<close> on a stream whose bytes arrive over time. A call that has what it needs returns the
  same whatever follows; the others wait. \<open>would_block\<close> decides which, and \<open>stable\<close> is the
  compositional specification behind it. The last section shows that a byte stream determines
  the sequence of its records.
\<close>

section \<open>Calls that do not depend on what follows\<close>

text \<open>The errors by which a reader of \<^verbatim>\<open>codec.go\<close> reports the end of its input.\<close>

definition hits_end :: "go_error \<Rightarrow> bool" where
  "hits_end e \<longleftrightarrow> errors_Is e EOF \<or> errors_Is e ErrShortRead \<or> errors_Is e ErrUnexpectedEOF"

text \<open>
  Whether a \<^verbatim>\<open>ReadFrame\<close> on the bytes that have arrived would wait for more: if the stream
  ended here, the end would be its error.
\<close>

definition would_block :: "io_reader \<Rightarrow> bool" where
  "would_block r =
     (case snd (fst (ReadFrame (r\<lparr>rd_err := Sentinel EOF\<rparr>))) of None \<Rightarrow> False | Some e \<Rightarrow> hits_end e)"

definition stable :: "'a rd \<Rightarrow> bool" where
  "stable m \<longleftrightarrow> (\<forall>r s later. rd_err r = Sentinel EOF \<and> rd_bytes s = rd_bytes r @ later \<longrightarrow>
     (case m r of
        (Inl e, _) \<Rightarrow> hits_end e \<or> fst (m s) = Inl e
      | (Inr x, r') \<Rightarrow> rd_err r' = Sentinel EOF \<and> fst (m s) = Inr x \<and> rd_bytes (snd (m s)) = rd_bytes r' @ later))"

lemma stableD:
  assumes "stable m" "rd_err r = Sentinel EOF" "rd_bytes s = rd_bytes r @ later"
  shows "m r = (Inl e, r') \<Longrightarrow> \<not> hits_end e \<Longrightarrow> fst (m s) = Inl e"
    and "m r = (Inr x, r') \<Longrightarrow> rd_err r' = Sentinel EOF \<and> fst (m s) = Inr x \<and> rd_bytes (snd (m s)) = rd_bytes r' @ later"
  using assms by (fastforce simp: stable_def)+

lemma stable_return [step_intros]: "stable (rd_return x)"
  by (simp add: stable_def rd_return_def)

lemma stable_fail [step_intros]: "stable (rd_fail e)"
  by (simp add: stable_def rd_fail_def)

lemma stable_full [step_intros]:
  assumes "hits_end (wrap (Sentinel EOF))" "hits_end (wrap (Sentinel ErrUnexpectedEOF))"
  shows "stable (rd_full n wrap)"
  unfolding stable_def
proof (intro allI impI, elim conjE)
  fix r s later assume r: "rd_err r = Sentinel EOF" and s: "rd_bytes s = rd_bytes r @ later"
  show "case rd_full n wrap r of
        (Inl e, _) \<Rightarrow> hits_end e \<or> fst (rd_full n wrap s) = Inl e
      | (Inr x, r') \<Rightarrow> rd_err r' = Sentinel EOF \<and> fst (rd_full n wrap s) = Inr x \<and>
          rd_bytes (snd (rd_full n wrap s)) = rd_bytes r' @ later"
  proof (cases "n \<le> length (rd_bytes r)")
    case True
    with s have "n \<le> length (rd_bytes s)" by simp
    with io_ReadFull_enough [OF True] io_ReadFull_enough [of n s] r s True show ?thesis
      by (auto simp: rd_full_def rd_after_def)
  next
    case False
    with io_ReadFull_short [of r n] r assms show ?thesis by (auto simp: rd_full_def short_error_def)
  qed
qed

lemma stable_bind [step_intros]:
  assumes "stable m" "\<And>x. stable (f x)"
  shows "stable (rd_bind m f)"
  unfolding stable_def
proof (intro allI impI, elim conjE)
  fix r s later assume r: "rd_err r = Sentinel EOF" and s: "rd_bytes s = rd_bytes r @ later"
  obtain a r1 where a: "m r = (a, r1)" by fastforce
  obtain b s1 where b: "m s = (b, s1)" by fastforce
  show "case rd_bind m f r of
        (Inl e, _) \<Rightarrow> hits_end e \<or> fst (rd_bind m f s) = Inl e
      | (Inr x, r') \<Rightarrow> rd_err r' = Sentinel EOF \<and> fst (rd_bind m f s) = Inr x \<and>
          rd_bytes (snd (rd_bind m f s)) = rd_bytes r' @ later"
  proof (cases a)
    case (Inl e)
    with stableD(1) [OF assms(1) r s, of e] a b show ?thesis by (cases "hits_end e") (auto simp: rd_bind_def)
  next
    case (Inr x)
    with stableD(2) [OF assms(1) r s, of x] a b
    have 1: "rd_err r1 = Sentinel EOF" "b = Inr x" "rd_bytes s1 = rd_bytes r1 @ later" by auto
    then have e: "rd_bind m f r = f x r1" "rd_bind m f s = f x s1" using Inr a b by (simp_all add: rd_bind_def)
    show ?thesis unfolding e by (rule assms(2) [of x, unfolded stable_def, rule_format]) (use 1 in simp)
  qed
qed

lemma stable_map_error [step_intros]:
  assumes "stable m" "\<And>e. hits_end e \<Longrightarrow> hits_end (wrap e)"
  shows "stable (rd_map_error wrap m)"
  unfolding stable_def
proof (intro allI impI, elim conjE)
  fix r s later assume r: "rd_err r = Sentinel EOF" and s: "rd_bytes s = rd_bytes r @ later"
  obtain a r1 where a: "m r = (a, r1)" by fastforce
  obtain b s1 where b: "m s = (b, s1)" by fastforce
  from stableD [OF assms(1) r s] a b assms(2) show "case rd_map_error wrap m r of
        (Inl e, _) \<Rightarrow> hits_end e \<or> fst (rd_map_error wrap m s) = Inl e
      | (Inr x, r') \<Rightarrow> rd_err r' = Sentinel EOF \<and> fst (rd_map_error wrap m s) = Inr x \<and>
          rd_bytes (snd (rd_map_error wrap m s)) = rd_bytes r' @ later"
    by (cases a; cases "hits_end (projl a)") (auto simp: rd_map_error_def)
qed

lemma stable_if [step_intros]: "stable a \<Longrightarrow> stable b \<Longrightarrow> stable (if c then a else b)"
  by simp

lemma hits_end_rules [simp]:
  "hits_end (short_read what e)" "hits_end e \<Longrightarrow> hits_end (Errorf [Txt t, W e])"
  "hits_end (Sentinel EOF)" "hits_end (Sentinel ErrUnexpectedEOF)"
  "hits_end (tag_error (Sentinel EOF))" "hits_end (tag_error (Sentinel ErrUnexpectedEOF))"
  by (auto simp: hits_end_def short_read_def tag_error_def)

lemma readIP_stable: "stable (readIP n)"
  unfolding readIP_def by (intro step_intros) simp_all

lemma readDNS_stable: "stable (readDNS i n)"
  by (induction n arbitrary: i) (auto intro!: step_intros)

lemma frame_rd_stable: "stable frame_rd"
  unfolding frame_rd_def frame_body_def packet_body_def readHello_def readSession_def readKeepalive_def
    readRekey_def readClose_def Let_def readIP16_eq
  by (intro step_intros readIP_stable readDNS_stable) simp_all

text \<open>
  C39: Incremental reading. A \<^verbatim>\<open>ReadFrame\<close> that does not wait on the bytes that have arrived
  returns the same frame or the same error however many bytes arrive later and however the stream
  ends; a success leaves exactly the later bytes in addition.
\<close>

theorem ReadFrame_incremental:
  assumes "\<not> would_block r" "rd_bytes s = rd_bytes r @ later"
  shows "snd (fst (ReadFrame s)) = snd (fst (ReadFrame r)) \<and>
    (snd (fst (ReadFrame r)) = None \<longrightarrow>
       fst (fst (ReadFrame s)) = fst (fst (ReadFrame r)) \<and> rd_bytes (snd (ReadFrame s)) = rd_bytes (snd (ReadFrame r)) @ later)"
proof -
  let ?r = "r\<lparr>rd_err := Sentinel EOF\<rparr>"
  have e: "rd_err ?r = Sentinel EOF" "rd_bytes r = rd_bytes ?r @ []" "rd_bytes s = rd_bytes ?r @ later"
    using assms(2) by (simp_all add: rd_bytes_def)
  obtain a r1 where a: "frame_rd ?r = (a, r1)" by fastforce
  obtain b r2 where b: "frame_rd r = (b, r2)" by fastforce
  obtain c r3 where c: "frame_rd s = (c, r3)" by fastforce
  show ?thesis
  proof (cases a)
    case (Inl x)
    with a have "\<exists>fo. ReadFrame ?r = ((fo, Some x), r1)" by (simp add: ReadFrame_err)
    with assms(1) have "\<not> hits_end x" by (auto simp: would_block_def)
    with stableD(1) [OF frame_rd_stable e(1,2), of x r1] stableD(1) [OF frame_rd_stable e(1,3), of x r1] Inl a b c
    have "b = Inl x" "c = Inl x" by auto
    with b c have "\<exists>fo. ReadFrame r = ((fo, Some x), r2)" "\<exists>fo. ReadFrame s = ((fo, Some x), r3)"
      by (simp_all add: ReadFrame_err)
    then show ?thesis by auto
  next
    case (Inr f)
    with stableD(2) [OF frame_rd_stable e(1,2), of f r1] stableD(2) [OF frame_rd_stable e(1,3), of f r1] a b c
    have "b = Inr f" "c = Inr f" "rd_bytes r2 = rd_bytes r1" "rd_bytes r3 = rd_bytes r1 @ later" by auto
    with b c have "ReadFrame r = ((Some f, None), r2)" "ReadFrame s = ((Some f, None), r3)" "rd_bytes r3 = rd_bytes r2 @ later"
      by (simp_all add: ReadFrame_ok)
    then show ?thesis by simp
  qed
qed

text \<open>A record that has not arrived completely keeps its reader waiting.\<close>

lemma incomplete_blocks:
  assumes "wf_frame f" "strict_prefix (rd_bytes r) (enc_frame f)"
  shows "would_block r"
proof (rule ccontr)
  assume nb: "\<not> would_block r"
  let ?r = "r\<lparr>rd_err := Sentinel EOF\<rparr>"
  obtain later where later: "enc_frame f = rd_bytes ?r @ later" "later \<noteq> []"
    using assms(2) by (auto simp: strict_prefix_def prefix_def rd_bytes_def)
  let ?s = "\<lparr>rd_chunks = [enc_frame f], rd_err = Sentinel EOF, rd_eager = False\<rparr>"
  have s: "rd_bytes ?s = enc_frame f @ []" by (simp add: rd_bytes_def)
  from frame_fmt.decode_head [OF assms(1) s] obtain s' where s': "frame_rd ?s = (Inr f, s')" "rd_bytes s' = []" by auto
  obtain a r1 where a: "frame_rd ?r = (a, r1)" by fastforce
  have e: "rd_err ?r = Sentinel EOF" "rd_bytes ?s = rd_bytes ?r @ later" using later(1) s by simp_all
  show False
  proof (cases a)
    case (Inl x)
    with a have "\<exists>fo. ReadFrame ?r = ((fo, Some x), r1)" by (simp add: ReadFrame_err)
    with nb have "\<not> hits_end x" by (auto simp: would_block_def)
    with stableD(1) [OF frame_rd_stable e, of x r1] a Inl s' show False by simp
  next
    case (Inr g)
    with stableD(2) [OF frame_rd_stable e, of g r1] a s' later(2) show False by simp
  qed
qed

theorem ReadFrame_incremental_witness:
  "snd (fst (ReadFrame \<lparr>rd_chunks = [[0x04, 0, 3, 0x45, 0], [7, 0x12]], rd_err = Sentinel EOF, rd_eager = True\<rparr>)) = None"
proof -
  let ?r = "\<lparr>rd_chunks = [[0x04, 0, 3, 0x45, 0, 7]], rd_err = Sentinel Canceled, rd_eager = False\<rparr>"
  have "\<not> would_block ?r" "snd (fst (ReadFrame ?r)) = None" by code_simp+
  with ReadFrame_incremental [of ?r "\<lparr>rd_chunks = [[0x04, 0, 3, 0x45, 0], [7, 0x12]], rd_err = Sentinel EOF, rd_eager = True\<rparr>" "[0x12]"]
  show ?thesis by (simp add: rd_bytes_def)
qed

section \<open>A stream determines its records\<close>

lemma enc_frame_split:
  assumes "wf_frame f" "wf_frame g" "enc_frame f @ xs = enc_frame g @ ys"
  shows "f = g \<and> xs = ys"
proof -
  have "prefix (enc_frame f) (enc_frame g) \<or> prefix (enc_frame g) (enc_frame f)"
    using assms(3) by (metis prefixI prefix_same_cases)
  with frame_fmt.prefix_free [OF assms(1,2)] frame_fmt.prefix_free [OF assms(2,1)] have "f = g" by auto
  with assms(3) show ?thesis by simp
qed

text \<open>
  \<open>open_end tail\<close>: what can follow the last complete record of a pump: a part of a record, or a
  complete Close record.
\<close>

definition open_end :: "bytes \<Rightarrow> bool" where
  "open_end tail \<longleftrightarrow> (\<exists>g. wf_frame g \<and> prefix tail (enc_frame g) \<and> (tail = enc_frame g \<longrightarrow> Close g \<noteq> None))"

lemma enc_frame_nonempty [simp]: "enc_frame f \<noteq> []"
  by (simp add: enc_frame_def)

lemma records_prefix:
  assumes "list_all wf_frame rs" "list_all wf_frame fs" "open_end tail"
    "concat (map enc_frame rs) @ rest = concat (map enc_frame fs) @ tail"
  shows "prefix rs fs \<or> (\<exists>g. rs = fs @ [g] \<and> Close g \<noteq> None)"
  using assms
proof (induction rs arbitrary: fs)
  case (Cons r rs)
  show ?case
  proof (cases fs)
    case Nil
    from Cons.prems(3) obtain g where g: "wf_frame g" "prefix tail (enc_frame g)" "tail = enc_frame g \<longrightarrow> Close g \<noteq> None"
      by (auto simp: open_end_def)
    have "prefix (enc_frame r) tail" using Cons.prems(4) Nil by (auto simp: prefix_def intro: sym)
    with g Cons.prems(1) have rg: "r = g" using frame_fmt.prefix_free [of r g] prefix_order.trans by auto
    with \<open>prefix (enc_frame r) tail\<close> g(2) have t: "tail = enc_frame g" by (simp add: prefix_order.antisym)
    with rg Cons.prems(4) Nil have "concat (map enc_frame rs) @ rest = []" by simp
    then have "rs = []" by (cases rs) simp_all
    with t g(3) rg Nil show ?thesis by simp
  next
    case (Cons f fs')
    with Cons.prems enc_frame_split [of r f "concat (map enc_frame rs) @ rest" "concat (map enc_frame fs') @ tail"]
    have "r = f" "concat (map enc_frame rs) @ rest = concat (map enc_frame fs') @ tail" by auto
    with Cons.IH [of fs'] Cons.prems Cons show ?thesis by auto
  qed
qed simp

lemma records_unique:
  assumes "list_all wf_frame rs" "list_all wf_frame fs" "concat (map enc_frame rs) = concat (map enc_frame fs)"
  shows "rs = fs"
  using assms
proof (induction rs arbitrary: fs)
  case Nil
  then show ?case by (cases fs) simp_all
next
  case (Cons r rs)
  obtain f fs' where fs: "fs = f # fs'" using Cons.prems(3) by (cases fs) auto
  with Cons.prems enc_frame_split [of r f "concat (map enc_frame rs)" "concat (map enc_frame fs')"] Cons.IH [of fs'] show ?case
    by simp
qed

end
