(* ===== verification/Closable.thy ===== *)
theory Closable
  imports Main
begin

text \<open>
  The contract that the stream wrapper (\<^verbatim>\<open>contract/transport.Tunnel\<close>) and the TUN device
  (\<^verbatim>\<open>contract/tun.Device\<close>) share: closing is idempotent and final. The operations are one
  family \<open>step\<close> on a state; on a closed resource each returns a fixed refusal and changes nothing.
\<close>

section \<open>The contract of a closable resource\<close>

locale closable =
  fixes is_closed :: "'s \<Rightarrow> bool"
    and step :: "'op \<Rightarrow> 's \<Rightarrow> 'r \<times> 's"
    and is_close :: "'op \<Rightarrow> bool"
    and refused :: "'op \<Rightarrow> 'r"
  assumes close_closes: "is_close c \<Longrightarrow> is_closed (snd (step c s))"
    and closed_refuses: "is_closed s \<Longrightarrow> step c s = (refused c, s)"
begin

text \<open>From a closed state on, every sequence of operations is refused and changes nothing.\<close>

lemma closed_run:
  "is_closed s \<Longrightarrow> fold (\<lambda>c (rs, s). (rs @ [fst (step c s)], snd (step c s))) cs (rs0, s)
     = (rs0 @ map refused cs, s)"
  by (induction cs arbitrary: rs0) (auto simp: closed_refuses)

lemma closed_stays: "is_closed s \<Longrightarrow> is_closed (snd (step c s))"
  by (simp add: closed_refuses)

text \<open>Closing twice is closing once.\<close>

lemma close_idempotent: "is_close c \<Longrightarrow> is_close d \<Longrightarrow> step d (snd (step c s)) = (refused d, snd (step c s))"
  by (rule closed_refuses [OF close_closes])

end

end
