(* ===== verification/Tunnel.thy ===== *)
theory Tunnel
  imports Codec_Correct Closable
begin

text \<open>
  The stream wrapper, \<^verbatim>\<open>internal/transport/grpc/wrapper.go\<close>, which implements the
  \<^verbatim>\<open>Tunnel\<close> interface of \<^verbatim>\<open>internal/contract/transport/transport.go\<close> on a byte
  stream. \<^verbatim>\<open>SendFrame\<close> and \<^verbatim>\<open>Close\<close> hold the mutex for their whole body, so each
  is one step on the state; \<^verbatim>\<open>RecvFrame\<close> checks \<^verbatim>\<open>closed\<close> under the mutex and reads
  without it, so it is also given as its two halves for concurrent use. The locale \<open>closable\<close>
  is the contract that the wrapper and the TUN device share: closing is idempotent and final.
  The properties follow whole sequences of operations: what reaches the stream, what a peer
  reads from it, and what closing does.
\<close>

section \<open>The wrapper\<close>

record tunnel =
  tn_in :: io_reader
  tn_out :: io_writer
  tn_closed :: bool

definition Wrap :: "io_reader \<Rightarrow> io_writer \<Rightarrow> tunnel" where
  "Wrap rd w = \<lparr>tn_in = rd, tn_out = w, tn_closed = False\<rparr>"

definition SendFrame :: "frame \<Rightarrow> tunnel \<Rightarrow> go_error option \<times> tunnel" where
  "SendFrame f t =
     (if tn_closed t then (Some (Sentinel TransportErrClosed), t)
      else (case WriteFrame f (tn_out t) of
              (Some e, w) \<Rightarrow> (Some e, t\<lparr>tn_out := w, tn_closed := True\<rparr>)
            | (None, w) \<Rightarrow> (None, t\<lparr>tn_out := w\<rparr>)))"

text \<open>\<^verbatim>\<open>RecvFrame\<close>: the check under the mutex, then the read without it.\<close>

definition recv_check :: "tunnel \<Rightarrow> go_error option" where
  "recv_check t = (if tn_closed t then Some (Sentinel TransportErrClosed) else None)"

definition recv_read :: "tunnel \<Rightarrow> frame_result \<times> tunnel" where
  "recv_read t = (case ReadFrame (tn_in t) of (res, r) \<Rightarrow> (res, t\<lparr>tn_in := r\<rparr>))"

definition RecvFrame :: "tunnel \<Rightarrow> frame_result \<times> tunnel" where
  "RecvFrame t = (case recv_check t of Some e \<Rightarrow> ((None, Some e), t) | None \<Rightarrow> recv_read t)"

definition close_frame :: "u32 \<Rightarrow> string \<Rightarrow> frame" where
  "close_frame code message = (bare_frame TagClose)\<lparr>Close := Some \<lparr>Code = code, Message = message\<rparr>\<rparr>"

definition tunnel_Close :: "u32 \<Rightarrow> string \<Rightarrow> tunnel \<Rightarrow> go_error option \<times> tunnel" where
  "tunnel_Close code message t =
     (if tn_closed t then (None, t)
      else (case WriteFrame (close_frame code message) (tn_out t) of
              (err, w) \<Rightarrow> (err, t\<lparr>tn_out := w, tn_closed := True\<rparr>)))"

text \<open>The operations as one family, with their results.\<close>

datatype tunnel_op = OpSend frame | OpRecv | OpClose u32 string

datatype tunnel_result = Err "go_error option" | Frame frame_result

fun tunnel_step :: "tunnel_op \<Rightarrow> tunnel \<Rightarrow> tunnel_result \<times> tunnel" where
  "tunnel_step (OpSend f) t = (case SendFrame f t of (e, t') \<Rightarrow> (Err e, t'))"
| "tunnel_step OpRecv t = (case RecvFrame t of (res, t') \<Rightarrow> (Frame res, t'))"
| "tunnel_step (OpClose code message) t = (case tunnel_Close code message t of (e, t') \<Rightarrow> (Err e, t'))"

fun is_OpClose :: "tunnel_op \<Rightarrow> bool" where
  "is_OpClose (OpClose _ _) = True"
| "is_OpClose _ = False"

fun refused_op :: "tunnel_op \<Rightarrow> tunnel_result" where
  "refused_op (OpSend _) = Err (Some (Sentinel TransportErrClosed))"
| "refused_op OpRecv = Frame (None, Some (Sentinel TransportErrClosed))"
| "refused_op (OpClose _ _) = Err None"





section \<open>Lemmas\<close>

lemma closed_step [simp]: "tn_closed t \<Longrightarrow> tunnel_step c t = (refused_op c, t)"
  by (cases c) (simp_all add: SendFrame_def RecvFrame_def recv_check_def tunnel_Close_def)

interpretation tun: closable tn_closed tunnel_step is_OpClose refused_op
  by unfold_locales
    (auto simp: tunnel_Close_def split: prod.splits elim!: is_OpClose.elims)

lemma SendFrame_error_closes: "SendFrame f t = (Some e, t') \<Longrightarrow> tn_closed t'"
  by (cases "WriteFrame f (tn_out t)") (auto simp: SendFrame_def split: if_splits option.splits)

lemma tunnel_Close_closes: "tunnel_Close code message t = (e, t') \<Longrightarrow> tn_closed t'"
  by (auto simp: tunnel_Close_def split: if_splits prod.splits)







lemma recv_decodes:
  assumes "\<not> tn_closed t" "wf_frame f" "rd_bytes (tn_in t) = enc_frame f @ rest"
  shows "\<exists>r. RecvFrame t = ((Some f, None), t\<lparr>tn_in := r\<rparr>) \<and> rd_bytes r = rest"
  using frame_fmt.decode_head [OF assms(2,3)] assms(1)
  by (auto simp: RecvFrame_def recv_check_def recv_read_def ReadFrame_ok [symmetric])



section \<open>Properties\<close>



text \<open>
  C20: \<open>Close\<close> and any failed \<open>SendFrame\<close> are final. Once a tunnel is closed, every further sequence
  of calls returns \<^verbatim>\<open>transport.ErrClosed\<close> from \<open>SendFrame\<close> and \<open>RecvFrame\<close> and nil from \<open>Close\<close>,
  and leaves the tunnel, and so the stream, unchanged; in particular \<open>Close\<close> is idempotent.
\<close>

theorem tunnel_closed_final:
  assumes "tn_closed t \<or> (\<exists>f t0 e. SendFrame f t0 = (Some e, t)) \<or> (\<exists>c m t0 e. tunnel_Close c m t0 = (e, t))"
  shows "fold (\<lambda>c (rs, s). (rs @ [fst (tunnel_step c s)], snd (tunnel_step c s))) cs ([], t)
    = (map refused_op cs, t)"
proof -
  have "tn_closed t"
    using assms by (auto dest: SendFrame_error_closes tunnel_Close_closes)
  from tun.closed_run [OF this, of cs "[]"] show ?thesis by simp
qed

theorem tunnel_closed_final_witness:
  "fold (\<lambda>c (rs, s). (rs @ [fst (tunnel_step c s)], snd (tunnel_step c s))) [OpRecv, OpClose 7 ''x'']
     ([], snd (tunnel_Close 0 ''bye'' (Wrap sample_reader \<lparr>wr_out = [], wr_faults = []\<rparr>)))
   = ([Frame (None, Some (Sentinel TransportErrClosed)), Err None],
      snd (tunnel_Close 0 ''bye'' (Wrap sample_reader \<lparr>wr_out = [], wr_faults = []\<rparr>)))"
proof -
  let ?t = "snd (tunnel_Close 0 ''bye'' (Wrap sample_reader \<lparr>wr_out = [], wr_faults = []\<rparr>))"
  have "tn_closed ?t \<or> (\<exists>f t0 e. SendFrame f t0 = (Some e, ?t)) \<or> (\<exists>c m t0 e. tunnel_Close c m t0 = (e, ?t))"
    by (intro disjI2) (metis prod.collapse)
  from tunnel_closed_final [OF this, of "[OpRecv, OpClose 7 ''x'']"] show ?thesis
    by (simp only: list.map refused_op.simps)
qed

text \<open>
  A framing error does not close the tunnel. After \<open>RecvFrame\<close> has reported an unknown tag the
  tunnel is still open, and the next call takes the very next byte of the stream as a tag: here
  a record that starts with the bytes after an unknown one is delivered as a frame.
\<close>

lemma RecvFrame_continues_after_framing_error:
  assumes "\<not> tn_closed t" and "b \<notin> {TagIPv4, TagIPv6, TagHello, TagSession, TagKeepalive, TagRekey, TagClose}"
    and "wf_frame f" and "rd_bytes (tn_in t) = b # enc_frame f @ rest"
  shows "\<exists>e t'. RecvFrame t = ((None, Some e), t') \<and> errors_Is e ErrUnknownTag \<and> \<not> tn_closed t'
    \<and> fst (RecvFrame t') = (Some f, None)"
proof -
  obtain r where r: "io_ReadFull (tn_in t) 1 = (Inr [b], r)" "rd_bytes r = enc_frame f @ rest"
    using io_ReadFull_enough [of 1 "tn_in t"] assms(4) by (auto simp: rd_after_def)
  then have "RecvFrame t = ((None, Some (unknown_tag b)), t\<lparr>tn_in := r\<rparr>)"
    using assms(1,2) by (simp add: RecvFrame_def recv_check_def recv_read_def ReadFrame_def)
  moreover have "fst (RecvFrame (t\<lparr>tn_in := r\<rparr>)) = (Some f, None)"
    using recv_decodes [of "t\<lparr>tn_in := r\<rparr>" f rest] assms(1,3) r(2) by auto
  ultimately show ?thesis using assms(1) by auto
qed

text \<open>
  A \<open>Close\<close> whose message exceeds 255 bytes returns \<^verbatim>\<open>ErrFieldTooLong\<close>, closes the tunnel,
  and has left a lone \<^verbatim>\<open>TagClose\<close> byte on the stream, which no peer can read as a Close record.
\<close>

lemma Close_long_message:
  assumes "\<not> tn_closed t" and "MaxStringLen < length message" and "wr_faults (tn_out t) = []"
  shows "\<exists>e t'. tunnel_Close code message t = (Some e, t') \<and> errors_Is e ErrFieldTooLong \<and> tn_closed t'
    \<and> wr_out (tn_out t') = wr_out (tn_out t) @ [TagClose]"
  using assms
  by (auto simp: tunnel_Close_def close_frame_def WriteFrame_def bare_frame_def writeClose_def wr_then_def
      io_Write_def wr_fail_def tag_simps)

end
