(* ===== verification/Tun_Device.thy ===== *)
theory Tun_Device
  imports Go_Errors Closable
begin

text \<open>
  The TUN device: the contract \<^verbatim>\<open>internal/contract/tun/tun.go\<close> and its Linux implementation
  \<^verbatim>\<open>internal/tunnel/tun/tun_linux.go\<close>, with the stub \<^verbatim>\<open>tun_other.go\<close>. The system
  calls and the two functions of \<^verbatim>\<open>golang.org/x/sys/unix\<close> it uses are the fields of a record
  \<open>kernel\<close> that every operation takes as an argument; they act on an outside state of type
  \<open>'k\<close>. \<^verbatim>\<open>os.File\<close> is modelled as far as the device uses it: reading, writing and
  closing, the error of a closed file, and the short-write and end-of-file rules.
\<close>

section \<open>The system calls\<close>

type_synonym fd = nat

record 'k kernel =
  unix_Open :: "string \<Rightarrow> nat \<Rightarrow> nat \<Rightarrow> 'k \<Rightarrow> (go_error + fd) \<times> 'k"
  unix_Close :: "fd \<Rightarrow> 'k \<Rightarrow> go_error option \<times> 'k"
  unix_TUNSETIFF :: "fd \<Rightarrow> bytes \<Rightarrow> 'k \<Rightarrow> (go_error + bytes) \<times> 'k"
  unix_SetNonblock :: "fd \<Rightarrow> bool \<Rightarrow> 'k \<Rightarrow> go_error option \<times> 'k"
  unix_Socket :: "nat \<Rightarrow> nat \<Rightarrow> nat \<Rightarrow> 'k \<Rightarrow> (go_error + fd) \<times> 'k"
  unix_NewIfreq :: "string \<Rightarrow> go_error + bytes"
  unix_SIOCGIFMTU :: "fd \<Rightarrow> bytes \<Rightarrow> 'k \<Rightarrow> (go_error + bytes) \<times> 'k"
  ifreq_Uint32 :: "bytes \<Rightarrow> u32"
  fd_read :: "fd \<Rightarrow> nat \<Rightarrow> 'k \<Rightarrow> (bytes \<times> go_error option) \<times> 'k"
  fd_write :: "fd \<Rightarrow> bytes \<Rightarrow> 'k \<Rightarrow> (nat \<times> go_error option) \<times> 'k"

text \<open>The constants of \<^verbatim>\<open>golang.org/x/sys/unix\<close> that the calls are made with.\<close>

definition O_RDWR :: nat where
  "O_RDWR = 2"

definition AF_INET :: nat where
  "AF_INET = 2"

definition SOCK_DGRAM :: nat where
  "SOCK_DGRAM = 2"

section \<open>Files\<close>

record os_file =
  f_fd :: fd
  f_name :: string
  f_closed :: bool

definition NewFile :: "fd \<Rightarrow> string \<Rightarrow> os_file" where
  "NewFile fd name = \<lparr>f_fd = fd, f_name = name, f_closed = False\<rparr>"

definition PathError_closed :: "string \<Rightarrow> os_file \<Rightarrow> go_error" where
  "PathError_closed op f = Foreign (op @ '' '' @ f_name f @ '': file already closed'') [OsErrClosed]"

text \<open>\<^verbatim>\<open>(*os.File).Read\<close> into a buffer of \<open>n\<close> bytes: what was read, and the error.\<close>

definition File_Read :: "'k kernel \<Rightarrow> nat \<Rightarrow> os_file \<Rightarrow> 'k \<Rightarrow> (bytes \<times> go_error option) \<times> 'k" where
  "File_Read K n f k =
     (if f_closed f then (([], Some (PathError_closed ''read'' f)), k)
      else (case fd_read K (f_fd f) n k of
              ((b, None), k') \<Rightarrow> (if b = [] \<and> 0 < n then (([], Some (Sentinel EOF)), k') else ((b, None), k'))
            | ((b, Some e), k') \<Rightarrow> ((b, Some e), k')))"

text \<open>\<^verbatim>\<open>(*os.File).Write\<close>: a nil error means that every byte was written.\<close>

definition File_Write :: "'k kernel \<Rightarrow> bytes \<Rightarrow> os_file \<Rightarrow> 'k \<Rightarrow> (nat \<times> go_error option) \<times> 'k" where
  "File_Write K b f k =
     (if f_closed f then ((0, Some (PathError_closed ''write'' f)), k)
      else (case fd_write K (f_fd f) b k of
              ((n, None), k') \<Rightarrow>
                ((n, if n = length b then None else Some (ErrorsNew ''short write'')), k')
            | ((n, Some e), k') \<Rightarrow> ((n, Some e), k')))"

definition File_Close :: "'k kernel \<Rightarrow> os_file \<Rightarrow> 'k \<Rightarrow> go_error option \<times> os_file \<times> 'k" where
  "File_Close K f k =
     (if f_closed f then (Some (PathError_closed ''close'' f), f, k)
      else (case unix_Close K (f_fd f) k of (e, k') \<Rightarrow> (e, f\<lparr>f_closed := True\<rparr>, k')))"

section \<open>The device\<close>

definition ifReqSize :: nat where
  "ifReqSize = 40"

definition IFNAMSIZ :: nat where
  "IFNAMSIZ = 16"

record ifReq =
  ifr_Name :: bytes
  ifr_Flags :: u16

text \<open>\<^verbatim>\<open>copy(dst, src)\<close>: as many bytes as fit, the rest of the destination is kept.\<close>

definition go_copy :: "'a list \<Rightarrow> 'a list \<Rightarrow> 'a list" where
  "go_copy dst src = take (length dst) src @ drop (length src) dst"

text \<open>
  The request in memory: the name, the flags in the little-endian order of amd64 and arm64, zero
  padding up to \<^verbatim>\<open>ifReqSize\<close>.
\<close>

definition ifReq_bytes :: "ifReq \<Rightarrow> bytes" where
  "ifReq_bytes r = ifr_Name r @ rev (PutUint16 (ifr_Flags r)) @ replicate (ifReqSize - 16 - 2) 0"

definition IFF_TUN :: u16 where
  "IFF_TUN = 0x0001"

definition IFF_NO_PI :: u16 where
  "IFF_NO_PI = 0x1000"

definition open_request :: "string \<Rightarrow> ifReq" where
  "open_request name =
     \<lparr>ifr_Name = go_copy (replicate IFNAMSIZ 0) (bytes_of_string name), ifr_Flags = or IFF_TUN IFF_NO_PI\<rparr>"

definition nullTerminatedString :: "bytes \<Rightarrow> string" where
  "nullTerminatedString b = string_of_bytes (takeWhile (\<lambda>c. c \<noteq> 0) b)"

record linux_device =
  d_f :: os_file
  d_cachedName :: string
  d_closed :: bool

definition tun_Open :: "'k kernel \<Rightarrow> string \<Rightarrow> 'k \<Rightarrow> (go_error + linux_device) \<times> 'k" where
  "tun_Open K name k =
     (case unix_Open K ''/dev/net/tun'' O_RDWR 0 k of
        (Inl err, k1) \<Rightarrow> (Inl (Errorf [Txt ''tun: open /dev/net/tun: '', W err]), k1)
      | (Inr fd, k1) \<Rightarrow>
          (case unix_TUNSETIFF K fd (ifReq_bytes (open_request name)) k1 of
             (Inl errno, k2) \<Rightarrow>
               (Inl (Errorf [Txt (''tun: TUNSETIFF('' @ fmt_q name @ ''): ''), W errno]), snd (unix_Close K fd k2))
           | (Inr req, k2) \<Rightarrow>
               (let resolved = nullTerminatedString (take IFNAMSIZ req) in
                case unix_SetNonblock K fd True k2 of
                  (Some err, k3) \<Rightarrow> (Inl (Errorf [Txt ''tun: set nonblock: '', W err]), snd (unix_Close K fd k3))
                | (None, k3) \<Rightarrow>
                    (Inr \<lparr>d_f = NewFile fd (''tun-'' @ resolved), d_cachedName = resolved, d_closed = False\<rparr>, k3))))"

definition tun_Name :: "linux_device \<Rightarrow> string" where
  "tun_Name d = d_cachedName d"

definition tun_MTU :: "'k kernel \<Rightarrow> linux_device \<Rightarrow> 'k \<Rightarrow> (int \<times> go_error option) \<times> 'k" where
  "tun_MTU K d k =
     (if d_closed d then ((0, Some (Sentinel TunErrClosed)), k)
      else (case unix_Socket K AF_INET SOCK_DGRAM 0 k of
              (Inl err, k1) \<Rightarrow> ((0, Some (Errorf [Txt ''tun: mtu socket: '', W err])), k1)
            | (Inr sock, k1) \<Rightarrow>
                (case unix_NewIfreq K (d_cachedName d) of
                   Inl err \<Rightarrow>
                     ((0, Some (Errorf [Txt (''tun: mtu ifreq('' @ fmt_q (d_cachedName d) @ ''): ''), W err])),
                      snd (unix_Close K sock k1))
                 | Inr ifr \<Rightarrow>
                     (case unix_SIOCGIFMTU K sock ifr k1 of
                        (Inl errno, k2) \<Rightarrow>
                          ((0, Some (Errorf [Txt (''tun: SIOCGIFMTU('' @ fmt_q (d_cachedName d) @ ''): ''), W errno])),
                           snd (unix_Close K sock k2))
                      | (Inr ifr', k2) \<Rightarrow>
                          ((uint (ifreq_Uint32 K ifr'), None), snd (unix_Close K sock k2))))))"

text \<open>
  \<^verbatim>\<open>Read\<close> and \<^verbatim>\<open>Write\<close> load the \<^verbatim>\<open>closed\<close> flag and then use the file; another goroutine can
  close the device between the two, so \<^verbatim>\<open>Read\<close> is also given as its two halves.
\<close>

definition read_check :: "linux_device \<Rightarrow> go_error option" where
  "read_check d = (if d_closed d then Some (Sentinel TunErrClosed) else None)"

definition read_body :: "'k kernel \<Rightarrow> nat \<Rightarrow> linux_device \<Rightarrow> 'k \<Rightarrow> (bytes \<times> go_error option) \<times> 'k" where
  "read_body K n d k = File_Read K n (d_f d) k"

definition tun_Read :: "'k kernel \<Rightarrow> nat \<Rightarrow> linux_device \<Rightarrow> 'k \<Rightarrow> (bytes \<times> go_error option) \<times> 'k" where
  "tun_Read K n d k = (case read_check d of Some e \<Rightarrow> (([], Some e), k) | None \<Rightarrow> read_body K n d k)"

definition tun_Write :: "'k kernel \<Rightarrow> bytes \<Rightarrow> linux_device \<Rightarrow> 'k \<Rightarrow> (nat \<times> go_error option) \<times> 'k" where
  "tun_Write K p d k =
     (if d_closed d then ((0, Some (Sentinel TunErrClosed)), k) else File_Write K p (d_f d) k)"

definition tun_Close :: "'k kernel \<Rightarrow> linux_device \<Rightarrow> 'k \<Rightarrow> go_error option \<times> linux_device \<times> 'k" where
  "tun_Close K d k =
     (if d_closed d then (None, d, k)
      else (case File_Close K (d_f d) k of (e, f', k') \<Rightarrow> (e, d\<lparr>d_f := f', d_closed := True\<rparr>, k')))"

text \<open>The non-Linux stub \<^verbatim>\<open>tun_other.go\<close>.\<close>

definition tun_errUnsupported :: "string \<Rightarrow> go_error" where
  "tun_errUnsupported goos =
     Errorf [Txt (''tun: /dev/net/tun is Linux-only (GOOS='' @ goos @ ''); see docs/ARCH.md ''
       @ [char_of (194::nat), char_of (167::nat)] @ ''1'')]"

definition tun_Open_other :: "string \<Rightarrow> string \<Rightarrow> go_error + linux_device" where
  "tun_Open_other goos name =
     Inl (ErrorsJoin [ErrorsNew ''tun: unsupported platform'', tun_errUnsupported goos])"

section \<open>The operations as one family\<close>

datatype dev_op = DevMTU | DevRead nat | DevWrite bytes | DevClose

datatype dev_result = RMTU int "go_error option" | RRead bytes "go_error option"
  | RWrite nat "go_error option" | RClose "go_error option"

fun dev_step :: "'k kernel \<Rightarrow> dev_op \<Rightarrow> linux_device \<times> 'k \<Rightarrow> dev_result \<times> linux_device \<times> 'k" where
  "dev_step K DevMTU (d, k) = (case tun_MTU K d k of ((n, e), k') \<Rightarrow> (RMTU n e, d, k'))"
| "dev_step K (DevRead n) (d, k) = (case tun_Read K n d k of ((b, e), k') \<Rightarrow> (RRead b e, d, k'))"
| "dev_step K (DevWrite p) (d, k) = (case tun_Write K p d k of ((n, e), k') \<Rightarrow> (RWrite n e, d, k'))"
| "dev_step K DevClose (d, k) = (case tun_Close K d k of (e, d', k') \<Rightarrow> (RClose e, d', k'))"

fun dev_refused :: "dev_op \<Rightarrow> dev_result" where
  "dev_refused DevMTU = RMTU 0 (Some (Sentinel TunErrClosed))"
| "dev_refused (DevRead _) = RRead [] (Some (Sentinel TunErrClosed))"
| "dev_refused (DevWrite _) = RWrite 0 (Some (Sentinel TunErrClosed))"
| "dev_refused DevClose = RClose None"

interpretation dev: closable "\<lambda>(d, k). d_closed d" "dev_step K" "\<lambda>c. c = DevClose" dev_refused for K
proof (unfold_locales, goal_cases)
  case (1 c s)
  then show ?case by (cases s) (auto simp: tun_Close_def split: prod.splits)
next
  case (2 s c)
  then show ?case by (cases s; cases c)
      (auto simp: tun_MTU_def tun_Read_def read_check_def tun_Write_def tun_Close_def)
qed

fun dev_run :: "'k kernel \<Rightarrow> dev_op list \<Rightarrow> linux_device \<times> 'k \<Rightarrow> dev_result list \<times> linux_device \<times> 'k" where
  "dev_run K [] s = ([], s)"
| "dev_run K (c # cs) s =
     (case dev_step K c s of (r, s') \<Rightarrow> (case dev_run K cs s' of (rs, s'') \<Rightarrow> (r # rs, s'')))"

lemma dev_run_Cons [simp]:
  "dev_run K (c # cs) s =
     (fst (dev_step K c s) # fst (dev_run K cs (snd (dev_step K c s))), snd (dev_run K cs (snd (dev_step K c s))))"
  by (simp split: prod.splits)

declare dev_run.simps(2) [simp del]

lemma dev_run_closed: "d_closed d \<Longrightarrow> dev_run K cs (d, k) = (map dev_refused cs, (d, k))"
  using dev.closed_refuses [of "(d, k)"] by (induction cs) (auto simp del: dev_step.simps)

section \<open>File descriptors\<close>

text \<open>
  What the system calls do to the process's open descriptors, as a hypothesis on the kernel:
  \<^verbatim>\<open>open\<close> and \<^verbatim>\<open>socket\<close> add a fresh one or fail, \<^verbatim>\<open>close\<close> removes its own even when
  it reports an error, nothing else changes them.
\<close>

definition fds_documented :: "'k kernel \<Rightarrow> ('k \<Rightarrow> fd set) \<Rightarrow> bool" where
  "fds_documented K fds \<longleftrightarrow>
     (\<forall>p fl m k e k'. unix_Open K p fl m k = (Inl e, k') \<longrightarrow> fds k' = fds k) \<and>
     (\<forall>p fl m k fd k'. unix_Open K p fl m k = (Inr fd, k') \<longrightarrow> fd \<notin> fds k \<and> fds k' = insert fd (fds k)) \<and>
     (\<forall>x y z k e k'. unix_Socket K x y z k = (Inl e, k') \<longrightarrow> fds k' = fds k) \<and>
     (\<forall>x y z k fd k'. unix_Socket K x y z k = (Inr fd, k') \<longrightarrow> fd \<notin> fds k \<and> fds k' = insert fd (fds k)) \<and>
     (\<forall>fd k. fds (snd (unix_Close K fd k)) = fds k - {fd}) \<and>
     (\<forall>fd b k r k'. unix_TUNSETIFF K fd b k = (r, k') \<longrightarrow> fds k' = fds k) \<and>
     (\<forall>fd b k r k'. unix_SetNonblock K fd b k = (r, k') \<longrightarrow> fds k' = fds k) \<and>
     (\<forall>fd b k r k'. unix_SIOCGIFMTU K fd b k = (r, k') \<longrightarrow> fds k' = fds k) \<and>
     (\<forall>fd n k r k'. fd_read K fd n k = (r, k') \<longrightarrow> fds k' = fds k) \<and>
     (\<forall>fd b k r k'. fd_write K fd b k = (r, k') \<longrightarrow> fds k' = fds k)"

lemma fds_documentedD:
  assumes "fds_documented K fds"
  shows "unix_Open K p fl m k = (Inl e, k') \<Longrightarrow> fds k' = fds k"
    and "unix_Open K p fl m k = (Inr fd, k') \<Longrightarrow> fd \<notin> fds k \<and> fds k' = insert fd (fds k)"
    and "unix_Socket K x y z k = (Inl e, k') \<Longrightarrow> fds k' = fds k"
    and "unix_Socket K x y z k = (Inr fd, k') \<Longrightarrow> fd \<notin> fds k \<and> fds k' = insert fd (fds k)"
    and "fds (snd (unix_Close K fd k)) = fds k - {fd}"
    and "unix_TUNSETIFF K fd b k = (r1, k') \<Longrightarrow> fds k' = fds k"
    and "unix_SetNonblock K fd on k = (r2, k') \<Longrightarrow> fds k' = fds k"
    and "unix_SIOCGIFMTU K fd b k = (r1, k') \<Longrightarrow> fds k' = fds k"
    and "fd_read K fd n k = (r3, k') \<Longrightarrow> fds k' = fds k"
    and "fd_write K fd b k = (r4, k') \<Longrightarrow> fds k' = fds k"
  using assms unfolding fds_documented_def by - metis+

lemma tun_Open_fds:
  assumes D: "fds_documented K fds" and "tun_Open K name k = (res, k')"
  shows "case res of Inl _ \<Rightarrow> fds k' = fds k
    | Inr d \<Rightarrow> f_fd (d_f d) \<notin> fds k \<and> fds k' = insert (f_fd (d_f d)) (fds k) \<and> \<not> d_closed d \<and> \<not> f_closed (d_f d)"
proof (cases "unix_Open K ''/dev/net/tun'' O_RDWR 0 k")
  case (Pair r1 k1)
  show ?thesis
  proof (cases r1)
    case (Inl e)
    with Pair assms fds_documentedD(1) [OF D] show ?thesis by (auto simp: tun_Open_def)
  next
    case (Inr fd)
    obtain r2 k2 where 2: "unix_TUNSETIFF K fd (ifReq_bytes (open_request name)) k1 = (r2, k2)" by fastforce
    obtain r3 k3 where 3: "unix_SetNonblock K fd True k2 = (r3, k3)" by fastforce
    have fd: "fd \<notin> fds k" "fds k1 = insert fd (fds k)" using fds_documentedD(2) [OF D] Pair Inr by blast+
    have "fds k2 = insert fd (fds k)" "fds k3 = insert fd (fds k)"
      using fds_documentedD(6) [OF D 2] fds_documentedD(7) [OF D 3] fd(2) by simp_all
    with fd(1) assms(2) Pair Inr 2 3 fds_documentedD(5) [OF D] show ?thesis
      by (auto simp: tun_Open_def NewFile_def Let_def split: sum.splits option.splits)
  qed
qed

lemma tun_MTU_fds:
  assumes D: "fds_documented K fds"
  shows "fds (snd (tun_MTU K d k)) = fds k"
proof (cases "unix_Socket K AF_INET SOCK_DGRAM 0 k")
  case (Pair r1 k1)
  show ?thesis
  proof (cases r1)
    case (Inl e)
    with Pair fds_documentedD(3) [OF D] show ?thesis by (auto simp: tun_MTU_def)
  next
    case (Inr sock)
    have fd: "sock \<notin> fds k" "fds k1 = insert sock (fds k)" using fds_documentedD(4) [OF D] Pair Inr by blast+
    then have "unix_SIOCGIFMTU K sock ifr k1 = (r2, k2) \<Longrightarrow> fds k2 = insert sock (fds k)" for ifr r2 k2
      using fds_documentedD(8) [OF D] by metis
    with fd Pair Inr fds_documentedD(5) [OF D] show ?thesis
      by (auto simp: tun_MTU_def split: prod.splits sum.splits)
  qed
qed

lemma File_fds:
  assumes D: "fds_documented K fds"
  shows "fds (snd (File_Read K n f k)) = fds k" "fds (snd (File_Write K b f k)) = fds k"
proof -
  obtain r k1 where 1: "fd_read K (f_fd f) n k = (r, k1)" by fastforce
  obtain r' k2 where 2: "fd_write K (f_fd f) b k = (r', k2)" by fastforce
  from 1 fds_documentedD(9) [OF D 1] show "fds (snd (File_Read K n f k)) = fds k"
    by (simp add: File_Read_def split: prod.split option.split)
  from 2 fds_documentedD(10) [OF D 2] show "fds (snd (File_Write K b f k)) = fds k"
    by (simp add: File_Write_def split: prod.split option.split)
qed

lemma dev_step_fds:
  assumes "fds_documented K fds" "c \<noteq> DevClose"
  shows "fds (snd (snd (dev_step K c (d, k)))) = fds k \<and> fst (snd (dev_step K c (d, k))) = d"
proof (cases c)
  case DevMTU
  obtain n e k' where m: "tun_MTU K d k = ((n, e), k')" by (cases "tun_MTU K d k") auto
  from tun_MTU_fds [OF assms(1), of d k] DevMTU m show ?thesis by simp
next
  case (DevRead n)
  obtain b e k' where m: "File_Read K n (d_f d) k = ((b, e), k')" by (cases "File_Read K n (d_f d) k") auto
  from File_fds(1) [OF assms(1), of n "d_f d" k] DevRead m show ?thesis
    by (simp add: tun_Read_def read_check_def read_body_def)
next
  case (DevWrite p)
  obtain b e k' where m: "File_Write K p (d_f d) k = ((b, e), k')" by (cases "File_Write K p (d_f d) k") auto
  from File_fds(2) [OF assms(1), of p "d_f d" k] DevWrite m show ?thesis by (simp add: tun_Write_def)
qed (use assms in simp)

lemma dev_run_fds:
  assumes "fds_documented K fds" "\<not> d_closed d" "\<not> f_closed (d_f d)"
  shows "fds (snd (snd (dev_run K cs (d, k)))) = (if DevClose \<in> set cs then fds k - {f_fd (d_f d)} else fds k)"
  using assms(2,3)
proof (induction cs arbitrary: k)
  case (Cons c cs)
  show ?case
  proof (cases "c = DevClose")
    case True
    obtain e k1 where k1: "unix_Close K (f_fd (d_f d)) k = (e, k1)" by fastforce
    then have "fds k1 = fds k - {f_fd (d_f d)}" using fds_documentedD(5) [OF assms(1), of "f_fd (d_f d)" k] by simp
    with True k1 Cons.prems show ?thesis by (simp add: tun_Close_def File_Close_def dev_run_closed)
  next
    case False
    obtain k1 where k1: "snd (dev_step K c (d, k)) = (d, k1)" "fds k1 = fds k"
      using dev_step_fds [OF assms(1) False, of d k] by (cases "snd (dev_step K c (d, k))") auto
    with Cons.IH [of k1] Cons.prems False show ?thesis by (auto simp del: dev_step.simps)
  qed
qed simp

text \<open>
  C18: Descriptor lifetime. When \<^verbatim>\<open>Open\<close> fails, on any of its branches, the process has the
  descriptors it had before; when it succeeds there is exactly one more, and after any sequence of
  operations on the device (in which \<^verbatim>\<open>MTU\<close> opens and closes a socket) that one is gone if and
  only if \<^verbatim>\<open>Close\<close> was among them.
\<close>

theorem device_fd_lifetime:
  assumes "fds_documented K fds" "tun_Open K name k = (res, k1)"
  shows "case res of
      Inl _ \<Rightarrow> fds k1 = fds k
    | Inr d \<Rightarrow> (\<exists>fd. fd \<notin> fds k \<and> (\<forall>cs. fds (snd (snd (dev_run K cs (d, k1))))
         = (if DevClose \<in> set cs then fds k else insert fd (fds k))))"
proof (cases res)
  case (Inl e)
  with tun_Open_fds [OF assms] show ?thesis by simp
next
  case (Inr d)
  with tun_Open_fds [OF assms] have d: "f_fd (d_f d) \<notin> fds k" "fds k1 = insert (f_fd (d_f d)) (fds k)"
    "\<not> d_closed d" "\<not> f_closed (d_f d)" by auto
  with dev_run_fds [OF assms(1) d(3,4)] Inr show ?thesis by auto
qed

text \<open>A kernel whose state is the list of open descriptors; it gives out one more than their sum.\<close>

definition sample_kernel :: "fd list kernel" where
  "sample_kernel = \<lparr>
     unix_Open = \<lambda>p fl m s. (Inr (Suc (sum_list s)), Suc (sum_list s) # s),
     unix_Close = \<lambda>fd s. (None, filter (\<lambda>x. x \<noteq> fd) s),
     unix_TUNSETIFF = \<lambda>fd b k. (Inr (b[15 := 0]), k),
     unix_SetNonblock = \<lambda>fd b k. (None, k),
     unix_Socket = \<lambda>x y z s. (Inr (Suc (sum_list s)), Suc (sum_list s) # s),
     unix_NewIfreq = \<lambda>name. (if length name < 16 then Inr (bytes_of_string name) else Inl (Foreign ''invalid argument'' [])),
     unix_SIOCGIFMTU = \<lambda>fd b k. (Inr b, k),
     ifreq_Uint32 = \<lambda>b. 1500,
     fd_read = \<lambda>fd n k. ((take n [0x45], None), k),
     fd_write = \<lambda>fd b k. ((length b, None), k)\<rparr>"

lemma sample_kernel_documented: "fds_documented sample_kernel set"
proof -
  have "Suc (sum_list s) \<notin> set s" for s :: "nat list"
    using member_le_sum_list [of "Suc (sum_list s)" s] by auto
  then show ?thesis unfolding fds_documented_def by (simp add: sample_kernel_def) auto
qed

definition sample_device :: linux_device where
  "sample_device = \<lparr>d_f = \<lparr>f_fd = 1, f_name = ''tun-tun0'', f_closed = False\<rparr>, d_cachedName = ''tun0'', d_closed = False\<rparr>"

lemma sample_Open: "tun_Open sample_kernel ''tun0'' [] = (Inr sample_device, [1])"
  by code_simp

theorem device_fd_lifetime_witness:
  "tun_Open sample_kernel ''tun0'' [] = (Inr sample_device, [1]) \<and>
   (case (Inr sample_device :: go_error + linux_device) of
      Inl _ \<Rightarrow> set [1] = set ([] :: fd list)
    | Inr d \<Rightarrow> (\<exists>fd. fd \<notin> set [] \<and> (\<forall>cs. set (snd (snd (dev_run sample_kernel cs (d, [1]))))
         = (if DevClose \<in> set cs then set [] else insert fd (set [])))))"
  using sample_Open device_fd_lifetime [OF sample_kernel_documented sample_Open] by blast

section \<open>Closing\<close>

text \<open>
  C19: Closing a device is final and idempotent: after \<^verbatim>\<open>Close\<close>, whatever it returned, every
  sequence of operations leaves the device and the kernel untouched; \<^verbatim>\<open>MTU\<close>, \<^verbatim>\<open>Read\<close> and
  \<^verbatim>\<open>Write\<close> return \<^verbatim>\<open>ErrClosed\<close> and further calls of \<^verbatim>\<open>Close\<close> return nil.
\<close>

theorem device_closed_final:
  "dev_run K cs (snd (tun_Close K d k)) = (map dev_refused cs, snd (tun_Close K d k))"
proof -
  obtain e d' k' where c: "tun_Close K d k = (e, d', k')" by (cases "tun_Close K d k")
  with dev.close_closes [of DevClose K "(d, k)"] have "d_closed d'" by simp
  with c dev_run_closed show ?thesis by simp
qed

lemma close_then_read:
  assumes "read_check d = None" "tun_Close K d k = (e, d', k')"
  shows "read_body K n d' k2 = (([], Some (PathError_closed ''read'' (d_f d'))), k2)"
proof -
  have "f_closed (d_f d')" using assms
    by (auto simp: read_check_def tun_Close_def File_Close_def split: if_splits prod.splits)
  then show ?thesis by (simp add: read_body_def File_Read_def)
qed

text \<open>
  A read that passed the \<^verbatim>\<open>closed\<close> check before another goroutine closed the device does
  not return \<^verbatim>\<open>contracttun.ErrClosed\<close>, which the contract promises for a closed device, but the
  error of the closed \<^verbatim>\<open>os.File\<close>; callers that test for \<^verbatim>\<open>ErrClosed\<close> take it for a failure.
\<close>

lemma Read_close_race:
  assumes "read_check d = None" "tun_Close K d k = (e, d', k')"
  shows "\<exists>err. read_body K n d' k'' = (([], Some err), k'') \<and>
    errors_Is err OsErrClosed \<and> \<not> errors_Is err TunErrClosed"
  using close_then_read [OF assms, of n k''] by (simp add: PathError_closed_def)

section \<open>The interface name\<close>

lemma ifReq_layout:
  "length (ifReq_bytes (open_request name)) = ifReqSize"
  "take IFNAMSIZ (ifReq_bytes (open_request name)) =
     take IFNAMSIZ (bytes_of_string name) @ replicate (IFNAMSIZ - length name) 0"
  "take 2 (drop IFNAMSIZ (ifReq_bytes (open_request name))) = [0x01, 0x10]"
  by (simp_all add: ifReq_bytes_def open_request_def go_copy_def ifReqSize_def IFNAMSIZ_def IFF_TUN_def
      IFF_NO_PI_def PutUint16_def)

lemma bytes_of_string_no_NUL: "CHR 0x00 \<notin> set s \<Longrightarrow> 0 \<notin> set (bytes_of_string s)"
proof
  assume "CHR 0x00 \<notin> set s" "0 \<in> set (bytes_of_string s)"
  then have "char_of_byte 0 \<in> set (string_of_bytes (bytes_of_string s))"
    unfolding string_of_bytes_def by (metis image_eqI set_map)
  moreover have "char_of_byte 0 = CHR 0x00" by (simp add: char_of_byte_def char_of_eqs)
  ultimately show False using \<open>CHR 0x00 \<notin> set s\<close> by simp
qed

lemma nullTerminatedString_pad: "0 \<notin> set b \<Longrightarrow> nullTerminatedString (b @ replicate n 0) = string_of_bytes b"
  by (induction b) (auto simp: nullTerminatedString_def string_of_bytes_def takeWhile_eq_Nil_iff)

lemma string_of_bytes_take: "string_of_bytes (take n (bytes_of_string s)) = take n s"
  using string_of_bytes_of_string [of "take n s"] by (simp add: bytes_of_string_def take_map)

text \<open>
  What \<^verbatim>\<open>TUNSETIFF\<close> documents about the name, as a hypothesis on the kernel: it ends the 16-byte field
  with a NUL at its last byte, and a request whose name is then not empty and no template (it has no
  percent sign) is answered with that name.
\<close>

definition name_documented :: "'k kernel \<Rightarrow> bool" where
  "name_documented K \<longleftrightarrow>
     (\<forall>fd b k b' k'. unix_TUNSETIFF K fd b k = (Inr b', k') \<longrightarrow>
        takeWhile (\<lambda>c. c \<noteq> 0) (take 15 b) \<noteq> [] \<longrightarrow> 37 \<notin> set (takeWhile (\<lambda>c. c \<noteq> 0) (take 15 b)) \<longrightarrow>
        takeWhile (\<lambda>c. c \<noteq> 0) (take 16 b') = takeWhile (\<lambda>c. c \<noteq> 0) (take 15 b))"

lemma takeWhile_pad: "0 \<notin> set b \<Longrightarrow> takeWhile (\<lambda>c. c \<noteq> 0) (b @ replicate n (0::byte)) = b"
  by (induction b) (auto simp: takeWhile_eq_Nil_iff)

lemma bytes_no_char: "c \<notin> set s \<Longrightarrow> byte_of_char c \<notin> set (bytes_of_string s)"
proof
  assume "c \<notin> set s" "byte_of_char c \<in> set (bytes_of_string s)"
  then have "char_of_byte (byte_of_char c) \<in> set (string_of_bytes (bytes_of_string s))"
    unfolding string_of_bytes_def by (metis image_eqI set_map)
  then show False using \<open>c \<notin> set s\<close> string_of_bytes_of_string [of "[c]"]
    by (simp add: string_of_bytes_def bytes_of_string_def)
qed

text \<open>
  C28: The name through the \<^verbatim>\<open>ifreq\<close>, for a kernel that treats plain names as documented. When \<^verbatim>\<open>Open\<close>
  succeeds for a name that is not empty and has neither a NUL nor a percent sign, the device's \<^verbatim>\<open>Name()\<close>
  is that name if it has at most 15 bytes; a longer one has been cut to its first 15 bytes, and
  \<^verbatim>\<open>Open\<close> has not reported it. Empty names and templates, which the kernel rewrites, are excluded.
\<close>

theorem Open_name_roundtrip:
  assumes "name_documented K" "name \<noteq> []" "CHR 0x00 \<notin> set name" "CHR 0x25 \<notin> set name"
    and "tun_Open K name k = (Inr d, k')"
  shows "tun_Name d = take 15 name"
proof -
  let ?b = "ifReq_bytes (open_request name)"
  from assms(5) obtain fd k1 req k2 where t: "unix_TUNSETIFF K fd ?b k1 = (Inr req, k2)"
    and d: "d_cachedName d = nullTerminatedString (take IFNAMSIZ req)"
    by (auto simp: tun_Open_def Let_def split: prod.splits sum.splits option.splits)
  have n: "0 \<notin> set (bytes_of_string name)" "37 \<notin> set (bytes_of_string name)"
    using bytes_of_string_no_NUL [OF assms(3)] bytes_no_char [OF assms(4)] by (simp_all add: byte_of_char_def)
  have "take 15 ?b = take 15 (take IFNAMSIZ ?b)" by (simp add: IFNAMSIZ_def)
  also have "\<dots> = take 15 (bytes_of_string name) @ replicate (15 - length name) 0"
    unfolding ifReq_layout(2) by (cases "length name \<le> 15") (auto simp: IFNAMSIZ_def min_def)
  finally have b: "take 15 ?b = take 15 (bytes_of_string name) @ replicate (15 - length name) 0" .
  have w: "takeWhile (\<lambda>c. c \<noteq> 0) (take 15 ?b) = take 15 (bytes_of_string name)"
    unfolding b by (rule takeWhile_pad) (use n(1) in_set_takeD in fast)
  have "takeWhile (\<lambda>c. c \<noteq> 0) (take 16 req) = take 15 (bytes_of_string name)"
    using assms(1,2) t n(2) unfolding name_documented_def w [symmetric]
    by (metis (no_types, lifting) w in_set_takeD length_0_conv length_bytes_of_string list.size(3) take_eq_Nil zero_neq_numeral)
  with d show ?thesis by (simp add: tun_Name_def IFNAMSIZ_def nullTerminatedString_def string_of_bytes_take)
qed

lemma sample_kernel_name: "name_documented sample_kernel"
proof -
  have "takeWhile (\<lambda>c. c \<noteq> 0) (take 16 (b[15 := 0])) = takeWhile (\<lambda>c. c \<noteq> 0) (take 15 b)" for b :: bytes
  proof (cases "15 < length b")
    case True
    then have "take 16 (b[15 := 0]) = take 15 b @ [0]" by (simp add: take_Suc_conv_app_nth [of 15, simplified])
    then show ?thesis by (simp add: takeWhile_tail)
  qed (simp add: list_update_beyond)
  then show ?thesis by (simp add: name_documented_def sample_kernel_def)
qed

theorem Open_name_roundtrip_witness: "tun_Name sample_device = take 15 ''tun0''"
  by (rule Open_name_roundtrip [OF sample_kernel_name _ _ _ sample_Open]) simp_all

end
