(* ===== verification/Pump.thy ===== *)
theory Pump
  imports Codec
begin

text \<open>
  The packet pump: the contract \<^verbatim>\<open>internal/contract/session/Pump.go\<close> and its Linux
  implementation \<^verbatim>\<open>internal/tunnel/session/pump_linux.go\<close>, with the stub
  \<^verbatim>\<open>pump_other.go\<close>. The two directions and the lifecycle watcher are three sequential
  processes over a shared state: the buffers (a heap of byte arrays, so that aliasing is visible),
  the pool of free buffers, and the error group. A process is a program counter that stops at every
  call that can block; \<open>fire\<close> executes one event of one process, and an event carries what the
  called device, tunnel or pool answered. A run is a list of events, in any interleaving.
  The error group (\<^verbatim>\<open>golang.org/x/sync/errgroup\<close>) is a parameter; what its documentation says
  is the predicate \<open>errgroup_documented\<close>.
\<close>

section \<open>The contract's error type\<close>

definition pump_ReasonUnsupportedPlatform :: string where
  "pump_ReasonUnsupportedPlatform = ''unsupported_platform''"
definition ReasonReadTUNFailed :: string where
  "ReasonReadTUNFailed = ''read_tun_failed''"
definition ReasonWriteTUNFailed :: string where
  "ReasonWriteTUNFailed = ''write_tun_failed''"
definition ReasonSendFrameFailed :: string where
  "ReasonSendFrameFailed = ''send_frame_failed''"
definition ReasonRecvFrameFailed :: string where
  "ReasonRecvFrameFailed = ''recv_frame_failed''"

lemmas pump_reason_defs = pump_ReasonUnsupportedPlatform_def ReasonReadTUNFailed_def
  ReasonWriteTUNFailed_def ReasonSendFrameFailed_def ReasonRecvFrameFailed_def

fun is_PumpError :: "go_error \<Rightarrow> bool" where
  "is_PumpError (PumpError _ _ _) = True"
| "is_PumpError _ = False"

fun PumpError_Reason :: "go_error \<Rightarrow> string" where
  "PumpError_Reason (PumpError r _ _) = r"
| "PumpError_Reason _ = []"

definition IsPumpError :: "go_error option \<Rightarrow> bool" where
  "IsPumpError err = (case err of None \<Rightarrow> False | Some e \<Rightarrow> errors_As is_PumpError e \<noteq> None)"

definition PumpReason :: "go_error option \<Rightarrow> string" where
  "PumpReason err =
     (case err of
        None \<Rightarrow> []
      | Some e \<Rightarrow> (case errors_As is_PumpError e of None \<Rightarrow> [] | Some pe \<Rightarrow> PumpError_Reason pe))"

interpretation pump_err: typed_error is_PumpError PumpError_Reason IsPumpError PumpReason
  by unfold_locales (auto simp: IsPumpError_def PumpReason_def split: option.splits)

section \<open>The error group\<close>

text \<open>
  \<^verbatim>\<open>errgroup.WithContext\<close>: \<open>eg_return\<close> is the end of one function passed to \<^verbatim>\<open>Go\<close> with its result,
  \<open>eg_cancelled\<close> whether the group has cancelled its context, \<open>eg_Wait\<close> the result of \<^verbatim>\<open>Wait\<close>.
\<close>

record 'g errgroup =
  eg_init :: 'g
  eg_return :: "go_error option \<Rightarrow> 'g \<Rightarrow> 'g"
  eg_cancelled :: "'g \<Rightarrow> bool"
  eg_Wait :: "'g \<Rightarrow> go_error option"

text \<open>The first non-nil error of a list of results.\<close>

fun first_error :: "go_error option list \<Rightarrow> go_error option" where
  "first_error [] = None"
| "first_error (None # rs) = first_error rs"
| "first_error (Some e # rs) = Some e"

definition errgroup_documented :: "'g errgroup \<Rightarrow> bool" where
  "errgroup_documented G \<longleftrightarrow>
     (\<forall>rs. eg_cancelled G (fold (eg_return G) rs (eg_init G)) = (first_error rs \<noteq> None)) \<and>
     (\<forall>rs. eg_Wait G (fold (eg_return G) rs (eg_init G)) = first_error rs)"

section \<open>Construction and start-up\<close>

definition poolOverhead :: int where
  "poolOverhead = 32"

definition tagIPv4 :: byte where
  "tagIPv4 = 0x04"

definition tagIPv6 :: byte where
  "tagIPv6 = 0x06"

record pump =
  bufferOverhead :: int

record pump_options =
  BufferOverhead :: int

definition pump_New :: "pump_options \<Rightarrow> pump" where
  "pump_New opts =
     (let opts' = (if BufferOverhead opts = 0 then opts\<lparr>BufferOverhead := poolOverhead\<rparr> else opts) in
      \<lparr>bufferOverhead = BufferOverhead opts'\<rparr>)"

text \<open>Go's \<^verbatim>\<open>int\<close> on 64-bit platforms: the result of an addition wraps around.\<close>

definition go_int :: "int \<Rightarrow> int" where
  "go_int i = signed_take_bit 63 i"

text \<open>
  The part of \<^verbatim>\<open>Run\<close> before the goroutines: the two nil checks and the MTU query; the result is the
  argument of \<^verbatim>\<open>newBufferPool\<close>.
\<close>

definition Run_startup :: "pump \<Rightarrow> bool \<Rightarrow> bool \<Rightarrow> int \<times> go_error option \<Rightarrow> go_error + int" where
  "Run_startup p dev_nil tun_nil mtu_result =
     (if dev_nil then Inl (PumpError ReasonReadTUNFailed ''startup'' (Some (ErrorsNew ''pump: device is nil'')))
      else if tun_nil then
        Inl (PumpError ReasonSendFrameFailed ''startup'' (Some (ErrorsNew ''pump: tunnel is nil'')))
      else (case mtu_result of
              (_, Some err) \<Rightarrow>
                Inl (PumpError ReasonReadTUNFailed ''mtu'' (Some (Errorf [Txt ''pump: device mtu: '', W err])))
            | (mtu, None) \<Rightarrow> Inr (go_int (mtu + bufferOverhead p))))"

definition newBufferPool_size :: "int \<Rightarrow> nat" where
  "newBufferPool_size sliceSize = nat (if sliceSize < 1 then 1 else sliceSize)"

text \<open>The non-Linux stub \<^verbatim>\<open>pump_other.go\<close>.\<close>

definition pump_Run_other :: "go_error option" where
  "pump_Run_other = Some (PumpError pump_ReasonUnsupportedPlatform ''startup'' None)"

section \<open>The shared state\<close>

type_synonym addr = nat

datatype up_pc = UpTop | UpRead addr | UpGot addr nat | UpSend addr nat byte | UpRet "go_error option"

datatype down_pc = DnTop | DnRecv | DnCopy addr bytes | DnWrite addr nat | DnRet "go_error option"

datatype watch_pc = WWait | WCloseTun | WDone

record 'g pump_state =
  slice_size :: nat
  heap :: "bytes list"
  pool :: "addr list"
  up :: up_pc
  down :: down_pc
  watch :: watch_pc
  parent_done :: bool
  group :: 'g
  results :: "go_error option list"
  read_log :: "bytes list"
  send_log :: "frame list"
  recv_log :: "bytes list"
  write_log :: "bytes list"

definition pump_init :: "'g errgroup \<Rightarrow> nat \<Rightarrow> 'g pump_state" where
  "pump_init G n = \<lparr>slice_size = n, heap = [], pool = [], up = UpTop, down = DnTop, watch = WWait,
     parent_done = False, group = eg_init G, results = [], read_log = [], send_log = [], recv_log = [],
     write_log = []\<rparr>"

text \<open>
  \<^verbatim>\<open>Run\<close> up to the start of the goroutines: an error, or the state in which the two loops and the
  watcher start, with a pool of buffers of the computed size.
\<close>

definition pump_Run :: "'g errgroup \<Rightarrow> pump \<Rightarrow> bool \<Rightarrow> bool \<Rightarrow> int \<times> go_error option \<Rightarrow> go_error + 'g pump_state" where
  "pump_Run G p dev_nil tun_nil mtu_result =
     (case Run_startup p dev_nil tun_nil mtu_result of
        Inl e \<Rightarrow> Inl e
      | Inr sliceSize \<Rightarrow> Inr (pump_init G (newBufferPool_size sliceSize)))"

text \<open>\<^verbatim>\<open>gCtx\<close> is done when the caller's context is or the group cancelled it.\<close>

definition ctx_done :: "'g errgroup \<Rightarrow> 'g pump_state \<Rightarrow> bool" where
  "ctx_done G s \<longleftrightarrow> parent_done s \<or> eg_cancelled G (group s)"

section \<open>The buffer pool\<close>

text \<open>
  \<^verbatim>\<open>make([]byte, n)\<close>: a fresh zeroed array. \<^verbatim>\<open>pool.Get\<close> returns any buffer that was put, or a new one
  of the slice size; which one is the event's choice.
\<close>

definition alloc :: "nat \<Rightarrow> 'g pump_state \<Rightarrow> addr \<times> 'g pump_state" where
  "alloc n s = (length (heap s), s\<lparr>heap := heap s @ [replicate n 0]\<rparr>)"

datatype choice = Fresh | Reuse nat

fun pool_Get :: "choice \<Rightarrow> 'g pump_state \<Rightarrow> (addr \<times> 'g pump_state) option" where
  "pool_Get Fresh s = Some (alloc (slice_size s) s)"
| "pool_Get (Reuse i) s =
     (if i < length (pool s) then Some (pool s ! i, s\<lparr>pool := take i (pool s) @ drop (Suc i) (pool s)\<rparr>) else None)"

definition putBuf :: "addr \<Rightarrow> 'g pump_state \<Rightarrow> 'g pump_state" where
  "putBuf a s = s\<lparr>pool := a # pool s\<rparr>"

definition getBuf :: "choice \<Rightarrow> nat \<Rightarrow> 'g pump_state \<Rightarrow> (addr \<times> 'g pump_state) option" where
  "getBuf ch want s =
     (case pool_Get ch s of
        None \<Rightarrow> None
      | Some (a, s1) \<Rightarrow>
          if length (heap s1 ! a) < want then
            (case alloc want s1 of (b, s2) \<Rightarrow> Some (b, putBuf b s2))
          else Some (a, s1))"

text \<open>Writing the front of a buffer.\<close>

definition store :: "addr \<Rightarrow> bytes \<Rightarrow> 'g pump_state \<Rightarrow> 'g pump_state" where
  "store a b s = s\<lparr>heap := (heap s)[a := b @ drop (length b) (heap s ! a)]\<rparr>"

definition load :: "addr \<Rightarrow> nat \<Rightarrow> 'g pump_state \<Rightarrow> bytes" where
  "load a n s = take n (heap s ! a)"

section \<open>The error taxonomy of the two directions\<close>

definition ctx_error :: "go_error \<Rightarrow> bool" where
  "ctx_error e \<longleftrightarrow> errors_Is e Canceled \<or> errors_Is e DeadlineExceeded"

definition up_read_error :: "go_error \<Rightarrow> go_error option" where
  "up_read_error rerr =
     (if errors_Is rerr TunErrClosed then None
      else if ctx_error rerr then None
      else Some (PumpError ReasonReadTUNFailed ''read tun'' (Some rerr)))"

definition up_send_error :: "go_error \<Rightarrow> go_error option" where
  "up_send_error serr =
     (if errors_Is serr TransportErrClosed then None
      else if errors_Is serr EOF then None
      else if ctx_error serr then None
      else Some (PumpError ReasonSendFrameFailed ''send frame'' (Some serr)))"

definition down_recv_error :: "go_error \<Rightarrow> go_error option" where
  "down_recv_error rerr =
     (if errors_Is rerr EOF then None
      else if errors_Is rerr TransportErrClosed then None
      else if ctx_error rerr then None
      else Some (PumpError ReasonRecvFrameFailed ''recv frame'' (Some rerr)))"

definition down_write_error :: "go_error \<Rightarrow> go_error option" where
  "down_write_error werr =
     (if errors_Is werr TunErrClosed then None
      else if ctx_error werr then None
      else Some (PumpError ReasonWriteTUNFailed ''write tun'' (Some werr)))"

definition tag_dispatch :: "byte \<Rightarrow> byte option" where
  "tag_dispatch b =
     (if and b 0xf0 = 0x40 then Some tagIPv4 else if and b 0xf0 = 0x60 then Some tagIPv6 else None)"

definition unknown_version :: "byte \<Rightarrow> go_error" where
  "unknown_version b = PumpError ReasonSendFrameFailed ''tag dispatch''
     (Some (Errorf [Txt (''pump: unknown IP version 0x'' @ fmt_02x b @ '' in packet header (first byte)'')]))"

section \<open>One event of one process\<close>

datatype event =
    UpLoop choice
  | UpReadRet bytes "go_error option"
  | UpDispatch
  | UpSendRet "go_error option"
  | DnLoop
  | DnRecvRet "frame option" "go_error option" choice
  | DnCopyDo
  | DnWriteRet "go_error option"
  | CtxCancel
  | WatchDev
  | WatchTun

definition up_return :: "'g errgroup \<Rightarrow> go_error option \<Rightarrow> 'g pump_state \<Rightarrow> 'g pump_state" where
  "up_return G r s = s\<lparr>up := UpRet r, group := eg_return G r (group s), results := results s @ [r]\<rparr>"

definition down_return :: "'g errgroup \<Rightarrow> go_error option \<Rightarrow> 'g pump_state \<Rightarrow> 'g pump_state" where
  "down_return G r s = s\<lparr>down := DnRet r, group := eg_return G r (group s), results := results s @ [r]\<rparr>"

text \<open>
  \<^verbatim>\<open>pumpUp\<close>, from one blocking call to the next. The device can only fill the buffer it was given,
  which is the guard of \<open>UpReadRet\<close>.
\<close>

fun up_fire :: "'g errgroup \<Rightarrow> event \<Rightarrow> 'g pump_state \<Rightarrow> 'g pump_state option" where
  "up_fire G (UpLoop ch) s =
     (if up s \<noteq> UpTop then None
      else if ctx_done G s then Some (up_return G None s)
      else (case getBuf ch 0 s of None \<Rightarrow> None | Some (a, s') \<Rightarrow> Some (s'\<lparr>up := UpRead a\<rparr>)))"
| "up_fire G (UpReadRet b err) s =
     (case up s of
        UpRead a \<Rightarrow>
          if length b > length (heap s ! a) then None
          else (let s' = store a b s in
                case err of
                  Some rerr \<Rightarrow> Some (up_return G (up_read_error rerr) (putBuf a s'))
                | None \<Rightarrow>
                    if length b = 0 then Some ((putBuf a s')\<lparr>up := UpTop\<rparr>)
                    else Some (s'\<lparr>up := UpGot a (length b), read_log := read_log s @ [b]\<rparr>))
      | _ \<Rightarrow> None)"
| "up_fire G UpDispatch s =
     (case up s of
        UpGot a n \<Rightarrow>
          (let b0 = load a n s ! 0 in
           case tag_dispatch b0 of
             Some tag \<Rightarrow> Some (s\<lparr>up := UpSend a n tag\<rparr>)
           | None \<Rightarrow> Some (up_return G (Some (unknown_version b0)) (putBuf a s)))
      | _ \<Rightarrow> None)"
| "up_fire G (UpSendRet err) s =
     (case up s of
        UpSend a n tag \<Rightarrow>
          (let s' = s\<lparr>send_log := send_log s @ [(bare_frame tag)\<lparr>Packet := Some (load a n s)\<rparr>]\<rparr> in
           case err of
             Some serr \<Rightarrow> Some (up_return G (up_send_error serr) (putBuf a s'))
           | None \<Rightarrow> Some ((putBuf a s')\<lparr>up := UpTop\<rparr>))
      | _ \<Rightarrow> None)"
| "up_fire G _ s = None"

text \<open>\<^verbatim>\<open>pumpDown\<close>, from one blocking call to the next.\<close>

fun down_fire :: "'g errgroup \<Rightarrow> event \<Rightarrow> 'g pump_state \<Rightarrow> 'g pump_state option" where
  "down_fire G DnLoop s =
     (if down s \<noteq> DnTop then None
      else if ctx_done G s then Some (down_return G None s)
      else Some (s\<lparr>down := DnRecv\<rparr>))"
| "down_fire G (DnRecvRet fr err ch) s =
     (if down s \<noteq> DnRecv then None
      else (case err of
              Some rerr \<Rightarrow> Some (down_return G (down_recv_error rerr) s)
            | None \<Rightarrow>
                (case fr of
                   None \<Rightarrow>
                     Some (down_return G (Some (PumpError ReasonRecvFrameFailed ''recv frame''
                       (Some (ErrorsNew ''pump: nil frame without error'')))) s)
                 | Some f \<Rightarrow>
                     if Close f \<noteq> None then Some (down_return G None s)
                     else (case Packet f of
                             None \<Rightarrow> Some (s\<lparr>down := DnTop\<rparr>)
                           | Some p \<Rightarrow>
                               (case getBuf ch (length p) s of
                                  None \<Rightarrow> None
                                | Some (a, s') \<Rightarrow>
                                    Some (s'\<lparr>down := DnCopy a p, recv_log := recv_log s @ [p]\<rparr>))))))"
| "down_fire G DnCopyDo s =
     (case down s of
        DnCopy a p \<Rightarrow> Some ((store a p s)\<lparr>down := DnWrite a (length p)\<rparr>)
      | _ \<Rightarrow> None)"
| "down_fire G (DnWriteRet err) s =
     (case down s of
        DnWrite a n \<Rightarrow>
          (let s' = s\<lparr>write_log := write_log s @ [load a n s]\<rparr> in
           case err of
             Some werr \<Rightarrow> Some (down_return G (down_write_error werr) (putBuf a s'))
           | None \<Rightarrow> Some ((putBuf a s')\<lparr>down := DnTop\<rparr>))
      | _ \<Rightarrow> None)"
| "down_fire G _ s = None"

text \<open>
  The watcher of \<^verbatim>\<open>Run\<close>: it waits for \<^verbatim>\<open>gCtx\<close>, closes the device and then the tunnel. The group
  also cancels its context when \<^verbatim>\<open>Wait\<close> returns, that is when both directions have returned.
\<close>

definition both_returned :: "'g pump_state \<Rightarrow> bool" where
  "both_returned s = (case (up s, down s) of (UpRet _, DnRet _) \<Rightarrow> True | _ \<Rightarrow> False)"

fun watch_fire :: "'g errgroup \<Rightarrow> event \<Rightarrow> 'g pump_state \<Rightarrow> 'g pump_state option" where
  "watch_fire G WatchDev s =
     (if watch s = WWait \<and> (ctx_done G s \<or> both_returned s) then Some (s\<lparr>watch := WCloseTun\<rparr>) else None)"
| "watch_fire G WatchTun s = (if watch s = WCloseTun then Some (s\<lparr>watch := WDone\<rparr>) else None)"
| "watch_fire G _ s = None"

fun fire :: "'g errgroup \<Rightarrow> event \<Rightarrow> 'g pump_state \<Rightarrow> 'g pump_state option" where
  "fire G CtxCancel s = Some (s\<lparr>parent_done := True\<rparr>)"
| "fire G WatchDev s = watch_fire G WatchDev s"
| "fire G WatchTun s = watch_fire G WatchTun s"
| "fire G DnLoop s = down_fire G DnLoop s"
| "fire G (DnRecvRet fr err ch) s = down_fire G (DnRecvRet fr err ch) s"
| "fire G DnCopyDo s = down_fire G DnCopyDo s"
| "fire G (DnWriteRet err) s = down_fire G (DnWriteRet err) s"
| "fire G e s = up_fire G e s"

fun run_events :: "'g errgroup \<Rightarrow> event list \<Rightarrow> 'g pump_state \<Rightarrow> 'g pump_state option" where
  "run_events G [] s = Some s"
| "run_events G (e # es) s = (case fire G e s of None \<Rightarrow> None | Some s' \<Rightarrow> run_events G es s')"

text \<open>What \<^verbatim>\<open>Run\<close> returns: \<^verbatim>\<open>g.Wait()\<close>, once both directions have.\<close>

definition Run_result :: "'g errgroup \<Rightarrow> 'g pump_state \<Rightarrow> go_error option option" where
  "Run_result G s = (case (up s, down s) of (UpRet _, DnRet _) \<Rightarrow> Some (eg_Wait G (group s)) | _ \<Rightarrow> None)"

end
