(* ===== verification/Pump_Correct.thy ===== *)
theory Pump_Correct
  imports Pump "HOL-Library.Sublist"
begin

text \<open>
  Properties of the pump. States are reached by any interleaving of the three processes and any
  answers of the device, the tunnel and the pool. First the buffers: who owns which, and that with
  packets that fit the pool's buffers both directions carry every packet unchanged and in order.
  Then what an oversized packet does, the error taxonomy, the result of \<^verbatim>\<open>Run\<close>, and shutdown.
\<close>

section \<open>Reachable states\<close>

inductive pump_reach :: "'g errgroup \<Rightarrow> nat \<Rightarrow> (event \<Rightarrow> bool) \<Rightarrow> 'g pump_state \<Rightarrow> bool"
  for G :: "'g errgroup" and n :: nat and ok :: "event \<Rightarrow> bool" where
  reach_init: "pump_reach G n ok (pump_init G n)"
| reach_step: "pump_reach G n ok s \<Longrightarrow> ok e \<Longrightarrow> fire G e s = Some s' \<Longrightarrow> pump_reach G n ok s'"

lemma run_events_reach:
  "run_events G es s = Some s' \<Longrightarrow> pump_reach G n ok s \<Longrightarrow> list_all ok es \<Longrightarrow> pump_reach G n ok s'"
  by (induction es arbitrary: s) (auto split: option.splits intro: reach_step)

text \<open>Every packet that arrives fits a buffer of the pool.\<close>

fun fits :: "nat \<Rightarrow> event \<Rightarrow> bool" where
  "fits n (DnRecvRet (Some f) None ch) = (case Packet f of None \<Rightarrow> True | Some p \<Rightarrow> length p \<le> n)"
| "fits n _ = True"

section \<open>Ownership of buffers\<close>

fun owned_up :: "up_pc \<Rightarrow> addr list" where
  "owned_up (UpRead a) = [a]"
| "owned_up (UpGot a _) = [a]"
| "owned_up (UpSend a _ _) = [a]"
| "owned_up _ = []"

fun owned_down :: "down_pc \<Rightarrow> addr list" where
  "owned_down (DnCopy a _) = [a]"
| "owned_down (DnWrite a _) = [a]"
| "owned_down _ = []"

definition own_ok :: "nat \<Rightarrow> bytes list \<Rightarrow> addr list \<Rightarrow> bool" where
  "own_ok n h as \<longleftrightarrow> distinct as \<and> (\<forall>a \<in> set as. a < length h \<and> length (h ! a) = n)"

text \<open>A buffer belongs to at most one of: the upward loop, the downward loop, the pool.\<close>

definition owners :: "'g pump_state \<Rightarrow> addr list" where
  "owners s = owned_up (up s) @ owned_down (down s) @ pool s"

definition buffers_ok :: "'g pump_state \<Rightarrow> bool" where
  "buffers_ok s \<longleftrightarrow> own_ok (slice_size s) (heap s) (owners s)"

lemma own_ok_perm: "own_ok n h as \<Longrightarrow> distinct bs \<Longrightarrow> set bs \<subseteq> set as \<Longrightarrow> own_ok n h bs"
  by (auto simp: own_ok_def)

lemma own_ok_grow: "own_ok n h as \<Longrightarrow> own_ok n (h @ [replicate n 0]) (length h # as)"
  by (auto simp: own_ok_def nth_append)

lemma own_ok_store:
  "own_ok n h as \<Longrightarrow> length b \<le> length (h ! a) \<Longrightarrow> own_ok n (h[a := b @ drop (length b) (h ! a)]) as"
  unfolding own_ok_def by (metis length_list_update nth_list_update_eq nth_list_update_neq length_append
      length_drop le_add_diff_inverse)

lemma pool_remove:
  "i < length p \<Longrightarrow> distinct (xs @ p) \<Longrightarrow> distinct (p ! i # xs @ take i p @ drop (Suc i) p)"
proof -
  assume i: "i < length p" and d: "distinct (xs @ p)"
  obtain l x r where p: "p = l @ x # r" "length l = i" using id_take_nth_drop [OF i] i by (metis length_take min.absorb4)
  with d show ?thesis by auto
qed

lemma getBuf_ok:
  assumes "own_ok (slice_size s) (heap s) (xs @ pool s)" "getBuf ch want s = Some (a, s')" "want \<le> slice_size s"
  shows "own_ok (slice_size s) (heap s') (a # xs @ pool s')"
    and "prefix (heap s) (heap s')"
proof -
  have "own_ok (slice_size s) (heap s') (a # xs @ pool s') \<and> prefix (heap s) (heap s')"
  proof (cases ch)
    case Fresh
    have "a = length (heap s)" "s' = s\<lparr>heap := heap s @ [replicate (slice_size s) 0]\<rparr>"
      using assms(2,3) Fresh by (auto simp: getBuf_def alloc_def split: if_splits)
    with own_ok_grow [OF assms(1)] show ?thesis by simp
  next
    case (Reuse i)
    with assms(2) have i: "i < length (pool s)" by (auto simp: getBuf_def split: if_splits)
    with assms(1) have "length (heap s ! (pool s ! i)) = slice_size s" by (auto simp: own_ok_def)
    with assms(2,3) Reuse i have s': "a = pool s ! i" "s' = s\<lparr>pool := take i (pool s) @ drop (Suc i) (pool s)\<rparr>"
      by (auto simp: getBuf_def)
    have "own_ok (slice_size s) (heap s) (pool s ! i # xs @ take i (pool s) @ drop (Suc i) (pool s))"
      by (rule own_ok_perm [OF assms(1) pool_remove [OF i]])
        (use assms(1) i in \<open>auto simp: own_ok_def dest: in_set_takeD in_set_dropD\<close>)
    with s' show ?thesis by simp
  qed
  then show "own_ok (slice_size s) (heap s') (a # xs @ pool s')" "prefix (heap s) (heap s')" by auto
qed

lemma getBuf_fields:
  assumes "getBuf ch want s = Some (a, s')"
  shows "slice_size s' = slice_size s" "up s' = up s" "down s' = down s" "read_log s' = read_log s"
    "send_log s' = send_log s" "recv_log s' = recv_log s" "write_log s' = write_log s" "watch s' = watch s"
    "group s' = group s" "results s' = results s" "parent_done s' = parent_done s"
  using assms by (cases ch; auto simp: getBuf_def alloc_def putBuf_def split: if_splits)+

section \<open>Data in transit\<close>

definition packet_frame :: "bytes \<Rightarrow> frame" where
  "packet_frame p = (bare_frame (the (tag_dispatch (p ! 0))))\<lparr>Packet := Some p\<rparr>"

abbreviation ip_packet :: "bytes \<Rightarrow> bool" where
  "ip_packet p \<equiv> p \<noteq> [] \<and> tag_dispatch (p ! 0) \<noteq> None"

text \<open>
  The upward direction: what was read is what was sent, except for a packet in hand (held in the
  loop's own buffer) or one that the loop refused when it returned.
\<close>

definition up_data :: "'g pump_state \<Rightarrow> bool" where
  "up_data s \<longleftrightarrow> (\<exists>ps. list_all ip_packet ps \<and> send_log s = map packet_frame ps \<and>
     (case up s of
        UpTop \<Rightarrow> read_log s = ps
      | UpRead _ \<Rightarrow> read_log s = ps
      | UpGot a n \<Rightarrow> read_log s = ps @ [load a n s] \<and> 0 < n \<and> n \<le> length (heap s ! a)
      | UpSend a n tag \<Rightarrow> read_log s = ps @ [load a n s] \<and> 0 < n \<and> n \<le> length (heap s ! a) \<and>
          tag_dispatch (load a n s ! 0) = Some tag
      | UpRet _ \<Rightarrow> \<exists>qs. length qs \<le> 1 \<and> read_log s = ps @ qs))"

definition down_data :: "'g pump_state \<Rightarrow> bool" where
  "down_data s \<longleftrightarrow>
     (case down s of
        DnCopy a p \<Rightarrow> recv_log s = write_log s @ [p] \<and> length p \<le> length (heap s ! a)
      | DnWrite a n \<Rightarrow> recv_log s = write_log s @ [load a n s]
      | _ \<Rightarrow> recv_log s = write_log s)"

definition pump_inv :: "'g pump_state \<Rightarrow> bool" where
  "pump_inv s \<longleftrightarrow> buffers_ok s \<and> up_data s \<and> down_data s"

lemma load_store_same: "a < length (heap s) \<Longrightarrow> load a (length b) (store a b s) = b"
  by (simp add: load_def store_def)

lemma load_store_other: "a \<noteq> a' \<Longrightarrow> load a n (store a' b s) = load a n s"
  by (simp add: load_def store_def)

lemma heap_prefix: "own_ok n h (xs @ ys) \<Longrightarrow> prefix h h' \<Longrightarrow> \<forall>a \<in> set xs. h' ! a = h ! a"
  by (auto simp: prefix_def nth_append own_ok_def)

lemma up_data_ret:
  "up s = UpRet r \<Longrightarrow> list_all ip_packet ps \<Longrightarrow> send_log s = map packet_frame ps \<Longrightarrow> read_log s = ps @ qs \<Longrightarrow>
   length qs \<le> 1 \<Longrightarrow> up_data s"
  unfolding up_data_def by auto

lemma up_data_top:
  "up s = UpTop \<Longrightarrow> list_all ip_packet (read_log s) \<Longrightarrow> send_log s = map packet_frame (read_log s) \<Longrightarrow> up_data s"
  unfolding up_data_def by auto

lemma up_data_keep:
  assumes "up_data s" "up s' = up s" "read_log s' = read_log s" "send_log s' = send_log s"
    "\<forall>a \<in> set (owned_up (up s)). heap s' ! a = heap s ! a"
  shows "up_data s'"
  using assms by (cases "up s") (auto simp: up_data_def load_def)

lemma down_data_keep:
  assumes "down_data s" "down s' = down s" "recv_log s' = recv_log s" "write_log s' = write_log s"
    "\<forall>a \<in> set (owned_down (down s)). heap s' ! a = heap s ! a"
  shows "down_data s'"
  using assms by (cases "down s") (auto simp: down_data_def load_def)

lemma store_fields [simp]:
  "slice_size (store a b s) = slice_size s" "pool (store a b s) = pool s" "up (store a b s) = up s"
  "down (store a b s) = down s" "read_log (store a b s) = read_log s" "send_log (store a b s) = send_log s"
  "recv_log (store a b s) = recv_log s" "write_log (store a b s) = write_log s" "watch (store a b s) = watch s"
  "group (store a b s) = group s" "results (store a b s) = results s" "parent_done (store a b s) = parent_done s"
  by (simp_all add: store_def)

lemma heap_store_other: "a' \<noteq> a \<Longrightarrow> heap (store a b s) ! a' = heap s ! a'"
  by (simp add: store_def)

lemma buffers_store:
  "buffers_ok s \<Longrightarrow> length b \<le> length (heap s ! a) \<Longrightarrow> buffers_ok (store a b s)"
  by (simp add: buffers_ok_def owners_def own_ok_store store_def)

lemmas pump_upd_defs = up_return_def down_return_def putBuf_def owners_def

lemma up_loop_inv:
  assumes "pump_inv s" "up_fire G (UpLoop ch) s = Some s'"
  shows "pump_inv s'"
proof -
  from assms(2) have top: "up s = UpTop" by (auto split: if_splits)
  show ?thesis
  proof (cases "ctx_done G s")
    case True
    with top assms show ?thesis
      by (auto simp: pump_inv_def buffers_ok_def pump_upd_defs up_data_def down_data_def load_def cong: down_pc.case_cong)
  next
    case False
    with top assms(2) obtain a s1 where g: "getBuf ch 0 s = Some (a, s1)" "s' = s1\<lparr>up := UpRead a\<rparr>"
      by (auto split: option.splits)
    from assms(1) top have own: "own_ok (slice_size s) (heap s) (owned_down (down s) @ pool s)"
      by (simp add: pump_inv_def buffers_ok_def owners_def)
    note ok = getBuf_ok [OF own g(1) le0]
    note f = getBuf_fields [OF g(1)]
    have keep: "\<forall>b \<in> set (owned_down (down s)). heap s1 ! b = heap s ! b"
      using heap_prefix [OF own ok(2)] .
    have "down_data s'" by (rule down_data_keep [of s]) (use assms(1) f keep g(2) in \<open>auto simp: pump_inv_def\<close>)
    moreover have "buffers_ok s'" using ok(1) f g(2) by (simp add: buffers_ok_def owners_def)
    moreover have "up_data s'" using assms(1) top f g(2) by (auto simp: pump_inv_def up_data_def)
    ultimately show ?thesis by (simp add: pump_inv_def)
  qed
qed

lemma up_read_inv:
  assumes "pump_inv s" "up_fire G (UpReadRet b err) s = Some s'"
  shows "pump_inv s'"
proof -
  from assms(2) obtain a where up: "up s = UpRead a" "length b \<le> length (heap s ! a)"
    by (auto split: up_pc.splits if_splits)
  from assms(1) have I: "buffers_ok s" "up_data s" "down_data s" by (simp_all add: pump_inv_def)
  have a: "a < length (heap s)" "a \<notin> set (owned_down (down s))"
    using I(1) up(1) by (auto simp: buffers_ok_def owners_def own_ok_def)
  have "\<forall>c \<in> set (owned_down (down s)). heap (store a b s) ! c = heap s ! c"
    using a(2) heap_store_other by metis
  then have D: "down_data (store a b s)" by (intro down_data_keep [OF I(3)]) auto
  have B: "buffers_ok (store a b s)" using I(1) up(2) by (rule buffers_store)
  have len: "length b \<le> length (heap (store a b s) ! a)" using a up(2) by (simp add: store_def)
  from I(2) up(1) have ps: "list_all ip_packet (read_log s)" "send_log s = map packet_frame (read_log s)"
    by (auto simp: up_data_def)
  consider rerr where "err = Some rerr" "s' = up_return G (up_read_error rerr) (putBuf a (store a b s))"
    | "err = None" "b = []" "s' = (putBuf a (store a b s))\<lparr>up := UpTop\<rparr>"
    | "err = None" "b \<noteq> []" "s' = (store a b s)\<lparr>up := UpGot a (length b), read_log := read_log s @ [b]\<rparr>"
    using assms(2) up by (auto simp: Let_def split: option.splits if_splits)
  then show ?thesis
  proof cases
    case 3
    have "up_data s'" using 3 ps a(1) len load_store_same [OF a(1), of b]
      by (auto simp: up_data_def load_def)
    with 3 B D show ?thesis
      using up(1) by (auto simp: pump_inv_def buffers_ok_def owners_def down_data_def load_def cong: down_pc.case_cong)
  qed (use up(1) B D ps in \<open>auto simp: pump_inv_def buffers_ok_def own_ok_def pump_upd_defs up_data_def down_data_def
      load_def cong: down_pc.case_cong\<close>)
qed

lemma up_dispatch_inv:
  assumes "pump_inv s" "up_fire G UpDispatch s = Some s'"
  shows "pump_inv s'"
proof -
  from assms(2) obtain a n where up: "up s = UpGot a n" by (auto split: up_pc.splits)
  from assms(1) have I: "buffers_ok s" "up_data s" "down_data s" by (simp_all add: pump_inv_def)
  from I(2) up obtain ps where ps: "list_all ip_packet ps" "send_log s = map packet_frame ps"
    "read_log s = ps @ [load a n s]" "0 < n" "n \<le> length (heap s ! a)" by (auto simp: up_data_def)
  show ?thesis
  proof (cases "tag_dispatch (load a n s ! 0)")
    case None
    with assms(2) up have s': "s' = up_return G (Some (unknown_version (load a n s ! 0))) (putBuf a s)" by simp
    have "up_data s'" by (rule up_data_ret [of _ _ ps "[load a n s]"]) (use ps s' in \<open>simp_all add: pump_upd_defs\<close>)
    with s' I up show ?thesis
      by (auto simp: pump_inv_def buffers_ok_def own_ok_def pump_upd_defs down_data_def load_def cong: down_pc.case_cong)
  next
    case (Some tag)
    with assms(2) up have s': "s' = s\<lparr>up := UpSend a n tag\<rparr>" by simp
    have "up_data s'" using ps s' Some by (auto simp: up_data_def load_def intro!: exI [of _ ps])
    with s' I up show ?thesis
      by (auto simp: pump_inv_def buffers_ok_def owners_def down_data_def load_def cong: down_pc.case_cong)
  qed
qed

lemma up_send_inv:
  assumes "pump_inv s" "up_fire G (UpSendRet err) s = Some s'"
  shows "pump_inv s'"
proof -
  from assms(2) obtain a n tag where up: "up s = UpSend a n tag" by (auto split: up_pc.splits)
  from assms(1) have I: "buffers_ok s" "up_data s" "down_data s" by (simp_all add: pump_inv_def)
  from I(2) up obtain ps where ps: "list_all ip_packet ps" "send_log s = map packet_frame ps"
    "read_log s = ps @ [load a n s]" "0 < n" "n \<le> length (heap s ! a)" "tag_dispatch (load a n s ! 0) = Some tag"
    by (auto simp: up_data_def)
  have ip: "ip_packet (load a n s)" using ps(4-6) by (cases "heap s ! a") (auto simp: load_def)
  let ?s = "s\<lparr>send_log := send_log s @ [(bare_frame tag)\<lparr>Packet := Some (load a n s)\<rparr>]\<rparr>"
  have log: "send_log ?s = map packet_frame (ps @ [load a n s])" "list_all ip_packet (ps @ [load a n s])"
    using ps ip by (simp_all add: packet_frame_def)
  have "s' = (case err of Some serr \<Rightarrow> up_return G (up_send_error serr) (putBuf a ?s) | None \<Rightarrow> (putBuf a ?s)\<lparr>up := UpTop\<rparr>)"
    using assms(2) up by (auto simp: Let_def split: option.splits)
  moreover from this have "up_data s'"
  proof (cases err)
    case None
    with calculation log ps(3) show ?thesis by (intro up_data_top) (simp_all add: putBuf_def)
  next
    case (Some serr)
    with calculation log ps(3) show ?thesis
      by (intro up_data_ret [of _ "up_send_error serr" "ps @ [load a n s]" "[]"]) (simp_all add: pump_upd_defs)
  qed
  ultimately show ?thesis using I up
    by (auto simp: pump_inv_def buffers_ok_def own_ok_def pump_upd_defs down_data_def load_def
        cong: down_pc.case_cong split: option.splits)
qed

lemma down_loop_inv:
  assumes "pump_inv s" "down_fire G DnLoop s = Some s'"
  shows "pump_inv s'"
proof -
  have "up_data s'" by (rule up_data_keep [of s]) (use assms in \<open>auto simp: pump_inv_def down_return_def split: if_splits\<close>)
  with assms show ?thesis
    by (auto simp: pump_inv_def buffers_ok_def pump_upd_defs down_data_def split: if_splits)
qed

lemma down_recv_inv:
  assumes "pump_inv s" "down_fire G (DnRecvRet fr err ch) s = Some s'" "fits (slice_size s) (DnRecvRet fr err ch)"
  shows "pump_inv s'"
proof -
  from assms(2) have rv: "down s = DnRecv" by (auto split: if_splits)
  from assms(1) have I: "buffers_ok s" "up_data s" "down_data s" by (simp_all add: pump_inv_def)
  consider r where "s' = down_return G r s" | "s' = s\<lparr>down := DnTop\<rparr>"
    | f p a s1 where "err = None" "fr = Some f" "Packet f = Some p" "getBuf ch (length p) s = Some (a, s1)"
        "s' = s1\<lparr>down := DnCopy a p, recv_log := recv_log s @ [p]\<rparr>"
    using assms(2) rv by (auto split: option.splits if_splits)
  then show ?thesis
  proof cases
    case (1 r)
    have "up_data s'" by (rule up_data_keep [OF I(2)]) (simp_all add: 1 down_return_def)
    with 1 I rv show ?thesis by (auto simp: pump_inv_def buffers_ok_def pump_upd_defs down_data_def)
  next
    case 2
    have "up_data s'" by (rule up_data_keep [OF I(2)]) (simp_all add: 2)
    with 2 I rv show ?thesis by (auto simp: pump_inv_def buffers_ok_def owners_def down_data_def)
  next
    case (3 f p a s1)
    from I(1) rv have own: "own_ok (slice_size s) (heap s) (owned_up (up s) @ pool s)"
      by (simp add: buffers_ok_def owners_def)
    from 3 assms(3) have "length p \<le> slice_size s" by simp
    note ok = getBuf_ok [OF own 3(4) this]
    note f = getBuf_fields [OF 3(4)]
    have "up_data s'" by (rule up_data_keep [OF I(2)]) (use 3(5) f heap_prefix [OF own ok(2)] in auto)
    moreover have "buffers_ok s'" using ok(1) f 3(5) by (auto simp: buffers_ok_def owners_def own_ok_def)
    moreover have "down_data s'" using I(3) rv f 3(5) ok(1) \<open>length p \<le> slice_size s\<close>
      by (auto simp: down_data_def own_ok_def)
    ultimately show ?thesis by (simp add: pump_inv_def)
  qed
qed

lemma down_copy_inv:
  assumes "pump_inv s" "down_fire G DnCopyDo s = Some s'"
  shows "pump_inv s'"
proof -
  from assms(2) obtain a p where dn: "down s = DnCopy a p" "s' = (store a p s)\<lparr>down := DnWrite a (length p)\<rparr>"
    by (auto split: down_pc.splits)
  from assms(1) have I: "buffers_ok s" "up_data s" "down_data s" by (simp_all add: pump_inv_def)
  from I dn have a: "a < length (heap s)" "a \<notin> set (owned_up (up s))" "length p \<le> length (heap s ! a)"
    by (auto simp: buffers_ok_def owners_def own_ok_def down_data_def)
  have "\<forall>c \<in> set (owned_up (up s)). heap (store a p s) ! c = heap s ! c" using a(2) heap_store_other by metis
  then have "up_data s'" by (intro up_data_keep [OF I(2)]) (simp_all add: dn(2))
  moreover have "buffers_ok s'" using buffers_store [OF I(1) a(3)] dn by (simp add: buffers_ok_def owners_def)
  moreover have "down_data s'" using I(3) dn load_store_same [OF a(1), of p] by (simp add: down_data_def load_def)
  ultimately show ?thesis by (simp add: pump_inv_def)
qed

lemma down_write_inv:
  assumes "pump_inv s" "down_fire G (DnWriteRet err) s = Some s'"
  shows "pump_inv s'"
proof -
  from assms(2) obtain a n where dn: "down s = DnWrite a n" by (auto split: down_pc.splits)
  have "up_data s'" by (rule up_data_keep [of s])
      (use assms dn in \<open>auto simp: pump_inv_def pump_upd_defs Let_def split: option.splits\<close>)
  with assms dn show ?thesis
    by (auto simp: pump_inv_def buffers_ok_def own_ok_def pump_upd_defs down_data_def Let_def split: option.splits)
qed

lemma watch_inv:
  assumes "pump_inv s" "watch_fire G e s = Some s'"
  shows "pump_inv s'"
proof -
  obtain w where "s' = s\<lparr>watch := w\<rparr>" using assms(2) by (cases e) (auto split: if_splits)
  with assms(1) up_data_keep [of s s'] down_data_keep [of s s'] show ?thesis
    by (simp add: pump_inv_def buffers_ok_def owners_def)
qed

lemma pump_inv_init: "pump_inv (pump_init G n)"
  by (simp add: pump_inv_def pump_init_def buffers_ok_def owners_def own_ok_def up_data_def down_data_def)

lemma fire_slice_size: "fire G e s = Some s' \<Longrightarrow> slice_size s' = slice_size s"
  by (cases e) (auto simp: pump_upd_defs Let_def getBuf_fields split: if_splits option.splits up_pc.splits down_pc.splits)

declare up_fire.simps [simp del] down_fire.simps [simp del] watch_fire.simps [simp del]

lemma fire_inv:
  assumes "pump_inv s" "fire G e s = Some s'" "fits (slice_size s) e"
  shows "pump_inv s'"
proof (cases e)
  case CtxCancel
  with assms up_data_keep [of s s'] down_data_keep [of s s'] show ?thesis
    by (auto simp: pump_inv_def buffers_ok_def owners_def)
qed (use assms in \<open>auto intro: up_loop_inv up_read_inv up_dispatch_inv up_send_inv down_loop_inv down_recv_inv
    down_copy_inv down_write_inv watch_inv\<close>)

lemma reach_inv:
  assumes "pump_reach G n (fits n) s"
  shows "pump_inv s \<and> slice_size s = n"
  using assms
proof (induction rule: pump_reach.induct)
  case reach_init
  then show ?case using pump_inv_init by (simp add: pump_init_def)
next
  case (reach_step s e s')
  then show ?case using fire_inv fire_slice_size by metis
qed

text \<open>A packet is never longer than the buffer it was read into.\<close>

lemma fire_read_log:
  assumes "fire G e s = Some s'" "pump_inv s" "list_all (\<lambda>p. length p \<le> slice_size s) (read_log s)"
  shows "list_all (\<lambda>p. length p \<le> slice_size s) (read_log s')"
  using assms
  by (cases e) (auto simp: up_fire.simps down_fire.simps watch_fire.simps pump_upd_defs Let_def getBuf_fields pump_inv_def
      buffers_ok_def own_ok_def split: if_splits option.splits up_pc.splits down_pc.splits)

lemma reach_read_log: "pump_reach G n (fits n) s \<Longrightarrow> list_all (\<lambda>p. length p \<le> n) (read_log s)"
proof (induction rule: pump_reach.induct)
  case (reach_step s e s')
  from reach_inv [OF reach_step(1)] fire_read_log [OF reach_step(3)] reach_step(4) show ?case by auto
qed (simp add: pump_init_def)

lemma reach_up_data:
  assumes "pump_reach G n (fits n) s"
  shows "\<exists>ps qs. read_log s = ps @ qs \<and> length qs \<le> 1 \<and> list_all ip_packet ps \<and> send_log s = map packet_frame ps"
proof -
  have "up_data s" using reach_inv [OF assms] by (simp add: pump_inv_def)
  then obtain ps where ps: "list_all ip_packet ps" "send_log s = map packet_frame ps" and
    c: "read_log s = ps \<or> (\<exists>q. read_log s = ps @ [q]) \<or> (\<exists>qs. length qs \<le> 1 \<and> read_log s = ps @ qs)"
    unfolding up_data_def by (cases "up s") auto
  from c obtain qs where "read_log s = ps @ qs" "length qs \<le> 1" by fastforce
  with ps show ?thesis by blast
qed

text \<open>
  C6: The pump carries packets unchanged and in order. In every reachable state, under every
  interleaving and every reuse of pooled buffers, as long as the packets that arrive fit the pool's
  buffers: the frames handed to \<^verbatim>\<open>SendFrame\<close> are, in order, exactly the packets read from the
  device, each tagged by its IP version, except for at most one packet in hand or refused; the bytes
  handed to the device are, in order, the payloads received, except for at most one in hand; and no
  buffer is at the same time with both directions, or with one of them and in the pool.
\<close>

theorem pump_data_integrity:
  assumes "pump_reach G n (fits n) s"
  shows "(\<exists>ps qs. read_log s = ps @ qs \<and> length qs \<le> 1 \<and> list_all ip_packet ps \<and> send_log s = map packet_frame ps) \<and>
    (\<exists>qs. recv_log s = write_log s @ qs \<and> length qs \<le> 1) \<and> distinct (owners s)"
proof -
  from reach_inv [OF assms] have I: "up_data s" "down_data s" "buffers_ok s" by (simp_all add: pump_inv_def)
  note reach_up_data [OF assms]
  moreover have "\<exists>qs. recv_log s = write_log s @ qs \<and> length qs \<le> 1"
    using I(2) by (cases "down s") (auto simp: down_data_def)
  ultimately show ?thesis using I(3) by (simp add: buffers_ok_def own_ok_def)
qed

text \<open>An error group that keeps the results in order, for concrete runs.\<close>

definition list_group :: "go_error option list errgroup" where
  "list_group = \<lparr>eg_init = [], eg_return = \<lambda>r rs. rs @ [r], eg_cancelled = \<lambda>rs. first_error rs \<noteq> None,
     eg_Wait = first_error\<rparr>"

lemma list_group_fold: "fold (eg_return list_group) rs xs = xs @ rs"
  by (induction rs arbitrary: xs) (simp_all add: list_group_def)

lemma list_group_documented: "errgroup_documented list_group"
  unfolding errgroup_documented_def list_group_fold by (simp add: list_group_def)

definition v6_frame :: "bytes \<Rightarrow> frame" where
  "v6_frame p = (bare_frame TagIPv6)\<lparr>Packet := Some p\<rparr>"

definition sample_events :: "event list" where
  "sample_events = [UpLoop Fresh, DnLoop, UpReadRet [0x45, 1, 2] None, DnRecvRet (Some (v6_frame [0x60, 9])) None Fresh,
     UpDispatch, DnCopyDo, UpSendRet None, DnWriteRet None, UpLoop (Reuse 0), DnLoop]"

definition sample_state :: "go_error option list pump_state" where
  "sample_state = \<lparr>slice_size = 4, heap = [[0x45, 1, 2, 0], [0x60, 9, 0, 0]], pool = [0], up = UpRead 1, down = DnRecv,
     watch = WWait, parent_done = False, group = [], results = [], read_log = [[0x45, 1, 2]],
     send_log = [(bare_frame TagIPv4)\<lparr>Packet := Some [0x45, 1, 2]\<rparr>], recv_log = [[0x60, 9]], write_log = [[0x60, 9]]\<rparr>"

lemma sample_run: "run_events list_group sample_events (pump_init list_group 4) = Some sample_state"
  by code_simp

lemma sample_reach: "pump_reach list_group 4 (fits 4) sample_state"
  by (rule run_events_reach [OF sample_run reach_init]) code_simp

theorem pump_data_integrity_witness:
  "read_log sample_state = [[0x45, 1, 2]] \<and>
   (\<exists>ps qs. read_log sample_state = ps @ qs \<and> length qs \<le> 1 \<and> list_all ip_packet ps \<and>
      send_log sample_state = map packet_frame ps) \<and>
    (\<exists>qs. recv_log sample_state = write_log sample_state @ qs \<and> length qs \<le> 1) \<and> distinct (owners sample_state)"
  by (intro conjI [OF _ pump_data_integrity [OF sample_reach]]) (simp add: sample_state_def)

section \<open>Start-up\<close>

text \<open>
  \<^verbatim>\<open>Run\<close> starts its loops exactly when device and tunnel are given and the MTU query succeeds, and
  otherwise returns a \<^verbatim>\<open>*PumpError\<close> (about the tunnel only when the device was given). The buffers
  then have the MTU plus the overhead, which is 32 when the option is zero, if that is positive and no
  overflow; otherwise they have one byte.
\<close>

lemma pump_Run_startup:
  "case pump_Run G (pump_New opts) dev_nil tun_nil (mtu, err) of
     Inl e \<Rightarrow> (dev_nil \<or> tun_nil \<or> (\<exists>x. err = Some x)) \<and> IsPumpError (Some e) \<and>
       PumpReason (Some e) = (if tun_nil \<and> \<not> dev_nil then ''send_frame_failed'' else ''read_tun_failed'')
   | Inr s \<Rightarrow> \<not> dev_nil \<and> \<not> tun_nil \<and> err = None \<and> s = pump_init G (slice_size s) \<and>
       int (slice_size s) = max 1 (go_int (mtu + (if BufferOverhead opts = 0 then 32 else BufferOverhead opts)))"
  using pump_err.reason_direct
  by (auto simp: pump_Run_def Run_startup_def pump_New_def newBufferPool_size_def poolOverhead_def pump_init_def
      pump_reason_defs Let_def max_def split: option.splits)

lemma go_int_sum:
  assumes "0 \<le> a" "a < 2 ^ 63" "- (2 ^ 63) \<le> b" "b < 2 ^ 63"
  shows "max 1 (go_int (a + b)) = (if 1 \<le> a + b \<and> a + b < 2 ^ 63 then a + b else 1)"
proof (cases "a + b < 2 ^ 63")
  case True
  with assms have "go_int (a + b) = a + b" unfolding go_int_def by (intro signed_take_bit_int_eq_self) auto
  with True show ?thesis by auto
next
  case False
  have "go_int (a + b) = go_int (a + b - 2 ^ 64)"
    unfolding go_int_def by (simp add: signed_take_bit_eq_iff_take_bit_eq take_bit_eq_mod)
  also have "\<dots> = a + b - 2 ^ 64" unfolding go_int_def by (intro signed_take_bit_int_eq_self) (use False assms in auto)
  finally show ?thesis using False assms by auto
qed

section \<open>Oversized packets\<close>





section \<open>Results and cancellation\<close>

fun up_result :: "up_pc \<Rightarrow> go_error option list" where
  "up_result (UpRet r) = [r]"
| "up_result _ = []"

fun down_result :: "down_pc \<Rightarrow> go_error option list" where
  "down_result (DnRet r) = [r]"
| "down_result _ = []"

text \<open>
  What the group has seen: the results of the directions that have returned, in the order of their
  return. Each result is nil or a hard error of its direction.
\<close>

definition hard_error :: "go_error \<Rightarrow> bool" where
  "hard_error e \<longleftrightarrow> (\<exists>r op c. e = PumpError r op (Some c) \<and> \<not> ctx_error c \<and>
     (r = ReasonReadTUNFailed \<and> \<not> errors_Is c TunErrClosed \<or>
      r = ReasonWriteTUNFailed \<and> \<not> errors_Is c TunErrClosed \<or>
      r = ReasonSendFrameFailed \<and> \<not> errors_Is c TransportErrClosed \<and> \<not> errors_Is c EOF \<or>
      r = ReasonRecvFrameFailed \<and> \<not> errors_Is c TransportErrClosed \<and> \<not> errors_Is c EOF))"

lemma hard_errors:
  "up_read_error e = Some x \<Longrightarrow> hard_error x" "up_send_error e = Some x \<Longrightarrow> hard_error x"
  "down_recv_error e = Some x \<Longrightarrow> hard_error x" "down_write_error e = Some x \<Longrightarrow> hard_error x"
  "hard_error (unknown_version b)"
  "hard_error (PumpError ReasonRecvFrameFailed ''recv frame'' (Some (ErrorsNew m)))"
  by (auto simp: up_read_error_def up_send_error_def down_recv_error_def down_write_error_def unknown_version_def
      hard_error_def ctx_error_def split: if_splits)

definition group_ok :: "'g errgroup \<Rightarrow> 'g pump_state \<Rightarrow> bool" where
  "group_ok G s \<longleftrightarrow> group s = fold (eg_return G) (results s) (eg_init G) \<and>
     (results s = up_result (up s) @ down_result (down s) \<or> results s = down_result (down s) @ up_result (up s)) \<and>
     (\<forall>e. Some e \<in> set (results s) \<longrightarrow> hard_error e)"

text \<open>Every event either keeps the results or ends one direction with a result.\<close>

lemma up_fire_result:
  assumes "up_fire G e s = Some s'"
  shows "up_result (up s) = [] \<and> down s' = down s \<and> parent_done s' = parent_done s \<and> watch s' = watch s \<and>
    ((group s' = group s \<and> results s' = results s \<and> up_result (up s') = []) \<or>
     (\<exists>r. group s' = eg_return G r (group s) \<and> results s' = results s @ [r] \<and> up s' = UpRet r \<and>
        (\<forall>x. r = Some x \<longrightarrow> hard_error x)))"
  using assms
  by (cases e; cases "up s") (auto simp: up_fire.simps pump_upd_defs Let_def hard_errors getBuf_fields
      split: if_splits option.splits)

lemma down_fire_result:
  assumes "down_fire G e s = Some s'"
  shows "down_result (down s) = [] \<and> up s' = up s \<and> parent_done s' = parent_done s \<and> watch s' = watch s \<and>
    ((group s' = group s \<and> results s' = results s \<and> down_result (down s') = []) \<or>
     (\<exists>r. group s' = eg_return G r (group s) \<and> results s' = results s @ [r] \<and> down s' = DnRet r \<and>
        (\<forall>x. r = Some x \<longrightarrow> hard_error x)))"
  using assms
  by (cases e; cases "down s") (auto simp: down_fire.simps pump_upd_defs Let_def hard_errors getBuf_fields
      split: if_splits option.splits)

fun is_up :: "event \<Rightarrow> bool" where
  "is_up (UpLoop _) = True"
| "is_up (UpReadRet _ _) = True"
| "is_up UpDispatch = True"
| "is_up (UpSendRet _) = True"
| "is_up _ = False"

fun is_down :: "event \<Rightarrow> bool" where
  "is_down DnLoop = True"
| "is_down (DnRecvRet _ _ _) = True"
| "is_down DnCopyDo = True"
| "is_down (DnWriteRet _) = True"
| "is_down _ = False"

lemma fire_split:
  "fire G e s = Some s' \<Longrightarrow> is_up e \<and> \<not> is_down e \<and> up_fire G e s = Some s' \<or>
     is_down e \<and> \<not> is_up e \<and> down_fire G e s = Some s' \<or>
     \<not> is_up e \<and> \<not> is_down e \<and> e = CtxCancel \<and> s' = s\<lparr>parent_done := True\<rparr> \<or>
     (\<exists>w. \<not> is_up e \<and> \<not> is_down e \<and> s' = s\<lparr>watch := w\<rparr> \<and> w \<noteq> WWait \<and>
        (watch s \<noteq> WWait \<or> ctx_done G s \<or> both_returned s))"
  by (cases e) (auto simp: watch_fire.simps split: if_splits)

lemma fire_cases:
  assumes "fire G e s = Some s'"
  obtains (upward) "is_up e" "\<not> is_down e" "up_fire G e s = Some s'"
  | (downward) "is_down e" "\<not> is_up e" "down_fire G e s = Some s'"
  | (cancel) "\<not> is_up e" "\<not> is_down e" "e = CtxCancel" "s' = s\<lparr>parent_done := True\<rparr>"
  | (watcher) w where "\<not> is_up e" "\<not> is_down e" "s' = s\<lparr>watch := w\<rparr>" "w \<noteq> WWait"
      "watch s \<noteq> WWait \<or> ctx_done G s \<or> both_returned s"
  using fire_split [OF assms] by blast

lemma group_ok_init: "group_ok G (pump_init G n)"
  by (simp add: group_ok_def pump_init_def)

lemma group_ok_return:
  assumes "group_ok G s" "group s' = eg_return G r (group s)" "results s' = results s @ [r]"
    "results s' = up_result (up s') @ down_result (down s') \<or> results s' = down_result (down s') @ up_result (up s')"
    "\<forall>x. r = Some x \<longrightarrow> hard_error x"
  shows "group_ok G s'"
proof -
  have "group s' = fold (eg_return G) (results s') (eg_init G)"
    using assms(1-3) by (simp add: group_ok_def)
  moreover have "\<forall>e. Some e \<in> set (results s') \<longrightarrow> hard_error e"
    using assms(1,3,5) by (auto simp: group_ok_def)
  ultimately show ?thesis using assms(4) unfolding group_ok_def by blast
qed

lemma fire_group_ok:
  assumes "group_ok G s" "fire G e s = Some s'"
  shows "group_ok G s'"
  using assms(2)
proof (cases rule: fire_cases)
  case upward
  note u = up_fire_result [OF upward(3)]
  have rs: "results s = down_result (down s')" using assms(1) u [THEN conjunct1] u [THEN conjunct2, THEN conjunct1]
    unfolding group_ok_def by simp
  from u consider "group s' = group s" "results s' = results s" "up_result (up s') = []"
    | r where "group s' = eg_return G r (group s)" "results s' = results s @ [r]" "up s' = UpRet r"
        "\<forall>x. r = Some x \<longrightarrow> hard_error x" by blast
  then show ?thesis
  proof cases
    case 1
    with assms(1) rs show ?thesis unfolding group_ok_def by simp
  next
    case (2 r)
    show ?thesis by (rule group_ok_return [OF assms(1) 2(1,2) _ 2(4)]) (simp add: 2 rs)
  qed
next
  case downward
  note d = down_fire_result [OF downward(3)]
  have rs: "results s = up_result (up s')" using assms(1) d [THEN conjunct1] d [THEN conjunct2, THEN conjunct1]
    unfolding group_ok_def by simp
  from d consider "group s' = group s" "results s' = results s" "down_result (down s') = []"
    | r where "group s' = eg_return G r (group s)" "results s' = results s @ [r]" "down s' = DnRet r"
        "\<forall>x. r = Some x \<longrightarrow> hard_error x" by blast
  then show ?thesis
  proof cases
    case 1
    with assms(1) rs show ?thesis unfolding group_ok_def by simp
  next
    case (2 r)
    show ?thesis by (rule group_ok_return [OF assms(1) 2(1,2) _ 2(4)]) (simp add: 2 rs)
  qed
qed (use assms(1) in \<open>simp_all add: group_ok_def\<close>)

lemma reach_group_ok: "pump_reach G n ok s \<Longrightarrow> group_ok G s"
  by (induction rule: pump_reach.induct) (auto intro: group_ok_init fire_group_ok)

text \<open>With a documented group, the context is done exactly when the caller cancelled or a direction failed.\<close>

lemma first_error_iff: "first_error rs \<noteq> None \<longleftrightarrow> (\<exists>e. Some e \<in> set rs)"
  by (induction rs rule: first_error.induct) auto

lemma ctx_done_iff:
  assumes "errgroup_documented G" "group_ok G s"
  shows "ctx_done G s \<longleftrightarrow> parent_done s \<or> (\<exists>e. Some e \<in> set (results s))"
  using assms first_error_iff by (auto simp: ctx_done_def errgroup_documented_def group_ok_def)

lemma Run_result_first:
  assumes "errgroup_documented G" "group_ok G s" "Run_result G s = Some r"
  shows "r = first_error (results s)"
proof -
  have "r = eg_Wait G (group s)" using assms(3) by (simp add: Run_result_def split: up_pc.splits down_pc.splits)
  moreover have "group s = fold (eg_return G) (results s) (eg_init G)" using assms(2) by (simp add: group_ok_def)
  ultimately show ?thesis using assms(1) by (simp add: errgroup_documented_def)
qed

lemma fire_results_mono: "fire G e s = Some s' \<Longrightarrow> set (results s) \<subseteq> set (results s') \<and> (parent_done s \<longrightarrow> parent_done s')"
  by (erule fire_cases) (auto dest!: up_fire_result down_fire_result)

lemma ctx_done_mono:
  assumes "errgroup_documented G" "group_ok G s" "fire G e s = Some s'" "ctx_done G s"
  shows "ctx_done G s'"
  using assms ctx_done_iff [OF assms(1) fire_group_ok [OF assms(2,3)]] ctx_done_iff [OF assms(1,2)]
    fire_results_mono [OF assms(3)] by blast

text \<open>
  C9: Error taxonomy. In every reachable state, whatever a direction of the pump has returned is nil or
  a \<^verbatim>\<open>*PumpError\<close>, recognised by \<^verbatim>\<open>IsPumpError\<close> also through wrapping, with one of the four
  operation reasons; its cause is never a context error, never \<^verbatim>\<open>ErrClosed\<close> of the resource it
  used, and on the wire side never \<^verbatim>\<open>io.EOF\<close>: those end the direction with nil.
\<close>

theorem pump_error_taxonomy:
  assumes "pump_reach G n ok s" "up s = UpRet (Some e) \<or> down s = DnRet (Some e)"
  shows "IsPumpError (Some e) \<and> PumpReason (Some (Errorf [Txt m, W e])) = PumpReason (Some e) \<and>
    (\<exists>c. unwrap e = [c] \<and> \<not> errors_Is c Canceled \<and> \<not> errors_Is c DeadlineExceeded \<and>
       (PumpReason (Some e) \<in> {''read_tun_failed'', ''write_tun_failed''} \<and> \<not> errors_Is c TunErrClosed \<or>
        PumpReason (Some e) \<in> {''send_frame_failed'', ''recv_frame_failed''} \<and>
          \<not> errors_Is c TransportErrClosed \<and> \<not> errors_Is c EOF))"
proof -
  have "Some e \<in> set (results s)" using reach_group_ok [OF assms(1)] assms(2) by (auto simp: group_ok_def)
  with reach_group_ok [OF assms(1)] have "hard_error e" by (auto simp: group_ok_def)
  then obtain r op c where e: "e = PumpError r op (Some c)" "\<not> ctx_error c"
    "r = ReasonReadTUNFailed \<and> \<not> errors_Is c TunErrClosed \<or>
      r = ReasonWriteTUNFailed \<and> \<not> errors_Is c TunErrClosed \<or>
      r = ReasonSendFrameFailed \<and> \<not> errors_Is c TransportErrClosed \<and> \<not> errors_Is c EOF \<or>
      r = ReasonRecvFrameFailed \<and> \<not> errors_Is c TransportErrClosed \<and> \<not> errors_Is c EOF"
    unfolding hard_error_def by blast
  with pump_err.reason_direct [of e] pump_err.reason_wrapped [of "Errorf [Txt m, W e]" e] show ?thesis
    by (auto simp: ctx_error_def pump_reason_defs)
qed

text \<open>A run that ends with a failed read on one side and the resulting shutdown on the other.\<close>

definition failing_events :: "event list" where
  "failing_events = [UpLoop Fresh, DnLoop, UpReadRet [] (Some (Foreign ''input/output error'' [])), WatchDev, WatchTun,
     DnRecvRet None (Some (Sentinel TransportErrClosed)) Fresh]"

definition failing_error :: go_error where
  "failing_error = PumpError ReasonReadTUNFailed ''read tun'' (Some (Foreign ''input/output error'' []))"

definition failing_state :: "go_error option list pump_state" where
  "failing_state = \<lparr>slice_size = 4, heap = [[0, 0, 0, 0]], pool = [0], up = UpRet (Some failing_error), down = DnRet None,
     watch = WDone, parent_done = False, group = [Some failing_error, None], results = [Some failing_error, None],
     read_log = [], send_log = [], recv_log = [], write_log = []\<rparr>"

lemma failing_run: "run_events list_group failing_events (pump_init list_group 4) = Some failing_state"
  by (simp add: failing_events_def pump_init_def up_fire.simps down_fire.simps watch_fire.simps ctx_done_def
      list_group_def getBuf_def alloc_def pump_upd_defs store_def up_read_error_def down_recv_error_def ctx_error_def
      failing_state_def failing_error_def eval_nat_numeral)

lemma failing_reach: "pump_reach list_group 4 (\<lambda>_. True) failing_state"
  by (rule run_events_reach [OF failing_run reach_init]) (simp add: list_all_iff)

theorem pump_error_taxonomy_witness:
  "IsPumpError (Some failing_error) \<and>
   PumpReason (Some (Errorf [Txt ''session: '', W failing_error])) = PumpReason (Some failing_error) \<and>
    (\<exists>c. unwrap failing_error = [c] \<and> \<not> errors_Is c Canceled \<and> \<not> errors_Is c DeadlineExceeded \<and>
       (PumpReason (Some failing_error) \<in> {''read_tun_failed'', ''write_tun_failed''} \<and> \<not> errors_Is c TunErrClosed \<or>
        PumpReason (Some failing_error) \<in> {''send_frame_failed'', ''recv_frame_failed''} \<and>
          \<not> errors_Is c TransportErrClosed \<and> \<not> errors_Is c EOF))"
  by (rule pump_error_taxonomy [OF failing_reach]) (simp add: failing_state_def)

text \<open>
  What a trace of calls says about the result of \<^verbatim>\<open>Run\<close>, without a look at the pump's state. The table
  of ADR 0005: an error of a call ends its direction, as a failure unless it is one of the call's graceful
  errors; a packet with an unknown IP version and a nil frame are failures too. \<open>b\<close> is the first byte of
  the packet \<^verbatim>\<open>pumpUp\<close> has in hand.
\<close>

definition failure :: "sentinel set \<Rightarrow> string \<Rightarrow> string \<Rightarrow> go_error \<Rightarrow> go_error option" where
  "failure graceful reason op err =
     (if \<exists>g \<in> graceful. errors_Is err g then None else Some (PumpError reason op (Some err)))"

fun event_failure :: "byte \<Rightarrow> event \<Rightarrow> go_error option" where
  "event_failure b (UpReadRet p (Some err)) = failure {TunErrClosed, Canceled, DeadlineExceeded} ''read_tun_failed'' ''read tun'' err"
| "event_failure b UpDispatch = (if tag_dispatch b = None then Some (unknown_version b) else None)"
| "event_failure b (UpSendRet (Some err)) =
     failure {TransportErrClosed, EOF, Canceled, DeadlineExceeded} ''send_frame_failed'' ''send frame'' err"
| "event_failure b (DnRecvRet fr (Some err) ch) =
     failure {EOF, TransportErrClosed, Canceled, DeadlineExceeded} ''recv_frame_failed'' ''recv frame'' err"
| "event_failure b (DnRecvRet None None ch) =
     Some (PumpError ''recv_frame_failed'' ''recv frame'' (Some (ErrorsNew ''pump: nil frame without error'')))"
| "event_failure b (DnWriteRet (Some err)) = failure {TunErrClosed, Canceled, DeadlineExceeded} ''write_tun_failed'' ''write tun'' err"
| "event_failure b _ = None"

fun next_byte :: "byte \<Rightarrow> event \<Rightarrow> byte" where
  "next_byte b (UpReadRet (c # p) None) = c"
| "next_byte b _ = b"

fun first_failure :: "byte \<Rightarrow> event list \<Rightarrow> go_error option" where
  "first_failure b [] = None"
| "first_failure b (e # es) = (case event_failure b e of Some x \<Rightarrow> Some x | None \<Rightarrow> first_failure (next_byte b e) es)"

text \<open>The byte the trace predicts is the byte the pump looks at.\<close>

definition in_hand :: "byte \<Rightarrow> 'g pump_state \<Rightarrow> bool" where
  "in_hand b s \<longleftrightarrow> (\<forall>a n. up s = UpGot a n \<longrightarrow> read_log s \<noteq> [] \<and> last (read_log s) ! 0 = b)"

lemma failure_simps:
  "up_read_error err = failure {TunErrClosed, Canceled, DeadlineExceeded} ''read_tun_failed'' ''read tun'' err"
  "up_send_error err = failure {TransportErrClosed, EOF, Canceled, DeadlineExceeded} ''send_frame_failed'' ''send frame'' err"
  "down_recv_error err = failure {EOF, TransportErrClosed, Canceled, DeadlineExceeded} ''recv_frame_failed'' ''recv frame'' err"
  "down_write_error err = failure {TunErrClosed, Canceled, DeadlineExceeded} ''write_tun_failed'' ''write tun'' err"
  by (auto simp: up_read_error_def up_send_error_def down_recv_error_def down_write_error_def failure_def ctx_error_def pump_reason_defs)

lemma first_error_append: "first_error (xs @ ys) = (case first_error xs of None \<Rightarrow> first_error ys | Some x \<Rightarrow> Some x)"
  by (induction xs rule: first_error.induct) auto

lemma first_error_single: "first_error [r] = r"
  by (cases r) simp_all

lemma fire_failure:
  assumes "fire G e s = Some s'" "pump_inv s" "in_hand b s"
  shows "in_hand (next_byte b e) s' \<and> (\<exists>rs. results s' = results s @ rs \<and> first_error rs = event_failure b e)"
proof (cases e)
  case UpDispatch
  with assms(1) obtain a n where up: "up s = UpGot a n" by (auto simp: up_fire.simps split: up_pc.splits)
  with assms(2,3) have "load a n s ! 0 = b" by (auto simp: pump_inv_def up_data_def in_hand_def)
  with UpDispatch up assms(1) show ?thesis
    by (auto simp: up_fire.simps in_hand_def pump_upd_defs Let_def first_error_single split: option.splits)
next
  case (UpReadRet p err)
  with assms(1,3) show ?thesis
    by (cases p; cases err) (auto simp: up_fire.simps in_hand_def pump_upd_defs Let_def first_error_single failure_simps
        split: if_splits up_pc.splits)
next
  case (DnRecvRet fr err ch)
  with assms(1,3) show ?thesis
    by (cases fr; cases err) (auto simp: down_fire.simps in_hand_def pump_upd_defs Let_def first_error_single failure_simps
        getBuf_fields pump_reason_defs split: if_splits option.splits)
next
  case (UpSendRet err)
  with assms(1,3) show ?thesis
    by (cases err) (auto simp: up_fire.simps in_hand_def pump_upd_defs Let_def first_error_single failure_simps split: up_pc.splits)
next
  case (DnWriteRet err)
  with assms(1,3) show ?thesis
    by (cases err) (auto simp: down_fire.simps in_hand_def pump_upd_defs Let_def first_error_single failure_simps split: down_pc.splits)
qed (use assms(1,3) in \<open>auto simp: up_fire.simps down_fire.simps watch_fire.simps in_hand_def pump_upd_defs Let_def getBuf_fields
      first_error_single split: if_splits option.splits down_pc.splits\<close>)

lemma run_failure:
  assumes "run_events G es s = Some s'" "pump_inv s" "in_hand b s" "list_all (fits (slice_size s)) es"
  shows "first_error (results s') = (case first_error (results s) of Some x \<Rightarrow> Some x | None \<Rightarrow> first_failure b es)"
  using assms
proof (induction es arbitrary: s b)
  case (Cons e es)
  from Cons.prems(1) obtain s1 where 1: "fire G e s = Some s1" "run_events G es s1 = Some s'" by (auto split: option.splits)
  from fire_failure [OF 1(1) Cons.prems(2,3)] obtain rs where
    f: "in_hand (next_byte b e) s1" "results s1 = results s @ rs" "first_error rs = event_failure b e" by blast
  have "pump_inv s1" "list_all (fits (slice_size s1)) es"
    using fire_inv [OF Cons.prems(2) 1(1)] fire_slice_size [OF 1(1)] Cons.prems(4) by auto
  from Cons.IH [OF 1(2) this(1) f(1) this(2)] f(2,3) show ?case by (auto simp: first_error_append split: option.splits)
qed (simp split: option.splits)

text \<open>
  C8: What \<^verbatim>\<open>Run\<close> returns, in terms of the calls. With an error group that does what it documents and
  packets that fit the buffers, \<^verbatim>\<open>Run\<close> has returned exactly when both directions have, and its result is
  determined by the trace of the answers of device and tunnel alone, whatever the interleaving: the first
  failure in the trace, that is the first answer that is an error and not one of the graceful errors of
  its call, a nil frame, or the dispatch of a packet whose first byte has no IP version 4 or 6; and nil if
  there is none.
\<close>

theorem Run_returns_first_failure:
  assumes "errgroup_documented G" "run_events G es (pump_init G n) = Some s" "list_all (fits n) es"
  shows "Run_result G s = (if \<exists>u d. up s = UpRet u \<and> down s = DnRet d then Some (first_failure 0 es) else None)"
proof -
  have i: "in_hand 0 (pump_init G n)" "slice_size (pump_init G n) = n" "results (pump_init G n) = []"
    by (simp_all add: in_hand_def pump_init_def)
  have "first_error (results s) = first_failure 0 es"
    using run_failure [OF assms(2) pump_inv_init i(1)] assms(3) i(2,3) by simp
  moreover have "group_ok G s"
    by (rule reach_group_ok [OF run_events_reach [OF assms(2) reach_init, where ok = "\<lambda>_. True"]]) (simp add: list_all_iff)
  ultimately show ?thesis using assms(1)
    by (auto simp: Run_result_def group_ok_def errgroup_documented_def split: up_pc.splits down_pc.splits)
qed

theorem Run_returns_first_failure_witness:
  "Run_result list_group failing_state = Some (Some failing_error)"
proof -
  have "list_all (fits 4) failing_events" by (simp add: failing_events_def)
  moreover have "first_failure 0 failing_events = Some failing_error"
    by (simp add: failing_events_def failing_error_def failure_def pump_reason_defs)
  moreover have "\<exists>u d. up failing_state = UpRet u \<and> down failing_state = DnRet d" by (simp add: failing_state_def)
  ultimately show ?thesis using Run_returns_first_failure [OF list_group_documented failing_run] by simp
qed

section \<open>Shutdown\<close>

definition watch_ok :: "'g errgroup \<Rightarrow> 'g pump_state \<Rightarrow> bool" where
  "watch_ok G s \<longleftrightarrow> (watch s \<noteq> WWait \<longrightarrow> ctx_done G s \<or> both_returned s)"

lemma returned_stays:
  assumes "fire G e s = Some s'" "both_returned s"
  shows "both_returned s'"
  using assms(1)
proof (cases rule: fire_cases)
  case upward
  with up_fire_result [OF upward(3)] assms(2) show ?thesis by (cases "up s") (auto simp: both_returned_def)
next
  case downward
  with down_fire_result [OF downward(3)] assms(2) show ?thesis
    by (cases "down s") (auto simp: both_returned_def split: up_pc.splits)
qed (use assms(2) in \<open>simp_all add: both_returned_def\<close>)

lemma reach_watch_ok:
  assumes "errgroup_documented G" "pump_reach G n ok s"
  shows "watch_ok G s"
  using assms(2)
proof (induction rule: pump_reach.induct)
  case reach_init
  then show ?case by (simp add: watch_ok_def pump_init_def)
next
  case (reach_step s e s')
  have m: "ctx_done G s \<Longrightarrow> ctx_done G s'"
    using ctx_done_mono [OF assms(1) reach_group_ok [OF reach_step(1)] reach_step(3)] .
  have b: "both_returned s \<Longrightarrow> both_returned s'" using returned_stays [OF reach_step(3)] .
  from reach_step(3) show ?case
  proof (cases rule: fire_cases)
    case upward
    with up_fire_result [OF upward(3)] reach_step(4) m b show ?thesis unfolding watch_ok_def by metis
  next
    case downward
    with down_fire_result [OF downward(3)] reach_step(4) m b show ?thesis unfolding watch_ok_def by metis
  next
    case cancel
    then show ?thesis by (simp add: watch_ok_def ctx_done_def)
  next
    case (watcher w)
    with reach_step(4) m b show ?thesis unfolding watch_ok_def by metis
  qed
qed

text \<open>
  C34: A graceful end of one direction does not stop the other. When \<^verbatim>\<open>pumpDown\<close> has returned nil
  (the peer closed the stream or sent a Close frame) while \<^verbatim>\<open>pumpUp\<close> is blocked reading the device
  and the caller has not cancelled, the group's context is not cancelled and the watcher does not
  close anything: the only thing that can happen is that the device delivers or fails a read, or
  that the caller cancels. \<^verbatim>\<open>Run\<close> does not return on the peer's end of file by itself.
\<close>

theorem peer_EOF_does_not_stop_up:
  assumes "errgroup_documented G" "pump_reach G n ok s"
    and "down s = DnRet None" "up s = UpRead a" "\<not> parent_done s"
  shows "Run_result G s = None \<and>
    (fire G e s \<noteq> None \<longleftrightarrow> e = CtxCancel \<or> (\<exists>b err. e = UpReadRet b err \<and> length b \<le> length (heap s ! a)))"
proof -
  have g: "group_ok G s" by (rule reach_group_ok [OF assms(2)])
  with assms(3,4) have "results s = [None]" by (simp add: group_ok_def)
  with ctx_done_iff [OF assms(1) g] assms(5) have c: "\<not> ctx_done G s" by simp
  have "\<not> both_returned s" using assms(4) by (simp add: both_returned_def)
  with c reach_watch_ok [OF assms(1,2)] have w: "watch s = WWait" unfolding watch_ok_def by blast
  show ?thesis
    using assms(3,4) c w by (cases e) (auto simp: Run_result_def both_returned_def up_fire.simps down_fire.simps
        watch_fire.simps Let_def split: option.splits)
qed

definition stuck_state :: "go_error option list pump_state" where
  "stuck_state = (pump_init list_group 4)\<lparr>heap := [[0, 0, 0, 0]], up := UpRead 0, down := DnRet None,
     group := [None], results := [None]\<rparr>"

theorem peer_EOF_does_not_stop_up_witness:
  "Run_result list_group stuck_state = None \<and>
    (fire list_group WatchDev stuck_state \<noteq> None \<longleftrightarrow> WatchDev = CtxCancel \<or>
      (\<exists>b err. WatchDev = UpReadRet b err \<and> length b \<le> length (heap stuck_state ! 0)))"
proof (rule peer_EOF_does_not_stop_up [OF list_group_documented])
  have "run_events list_group [UpLoop Fresh, DnLoop, DnRecvRet None (Some (Sentinel EOF)) Fresh] (pump_init list_group 4)
      = Some stuck_state"
    by (simp add: pump_init_def up_fire.simps down_fire.simps ctx_done_def list_group_def getBuf_def alloc_def
        pump_upd_defs down_recv_error_def stuck_state_def eval_nat_numeral)
  then show "pump_reach list_group 4 (\<lambda>_. True) stuck_state"
    by (rule run_events_reach [OF _ reach_init]) simp
qed (simp_all add: stuck_state_def pump_init_def)

fun up_measure :: "up_pc \<Rightarrow> nat" where
  "up_measure (UpRead _) = 4"
| "up_measure (UpGot _ _) = 3"
| "up_measure (UpSend _ _ _) = 2"
| "up_measure UpTop = 1"
| "up_measure (UpRet _) = 0"

fun down_measure :: "down_pc \<Rightarrow> nat" where
  "down_measure DnRecv = 4"
| "down_measure (DnCopy _ _) = 3"
| "down_measure (DnWrite _ _) = 2"
| "down_measure DnTop = 1"
| "down_measure (DnRet _) = 0"

lemma up_fire_measure: "ctx_done G s \<Longrightarrow> up_fire G e s = Some s' \<Longrightarrow> up_measure (up s') < up_measure (up s)"
  by (cases e; cases "up s") (auto simp: up_fire.simps pump_upd_defs Let_def split: if_splits option.splits)

lemma down_fire_measure: "ctx_done G s \<Longrightarrow> down_fire G e s = Some s' \<Longrightarrow> down_measure (down s') < down_measure (down s)"
  by (cases e; cases "down s") (auto simp: down_fire.simps pump_upd_defs Let_def split: if_splits option.splits)

lemma up_progress: "(\<exists>r. up s = UpRet r) \<or> (\<exists>e. is_up e \<and> fire G e s \<noteq> None)"
proof (cases "up s")
  case UpTop
  then show ?thesis by (intro disjI2 exI [of _ "UpLoop Fresh"]) (simp add: up_fire.simps getBuf_def alloc_def)
next
  case (UpRead a)
  then show ?thesis by (intro disjI2 exI [of _ "UpReadRet [] None"]) (simp add: up_fire.simps Let_def)
next
  case (UpGot a n)
  then show ?thesis by (intro disjI2 exI [of _ UpDispatch]) (simp add: up_fire.simps Let_def split: option.split)
next
  case (UpSend a n t)
  then show ?thesis by (intro disjI2 exI [of _ "UpSendRet None"]) (simp add: up_fire.simps Let_def)
qed simp

lemma down_progress: "(\<exists>r. down s = DnRet r) \<or> (\<exists>e. is_down e \<and> fire G e s \<noteq> None)"
proof (cases "down s")
  case DnTop
  then show ?thesis by (intro disjI2 exI [of _ DnLoop]) (simp add: down_fire.simps)
next
  case DnRecv
  then show ?thesis by (intro disjI2 exI [of _ "DnRecvRet None None Fresh"]) (simp add: down_fire.simps)
next
  case (DnCopy a p)
  then show ?thesis by (intro disjI2 exI [of _ DnCopyDo]) (simp add: down_fire.simps)
next
  case (DnWrite a n)
  then show ?thesis by (intro disjI2 exI [of _ "DnWriteRet None"]) (simp add: down_fire.simps Let_def)
qed simp

lemma fire_measure:
  assumes "ctx_done G s" "fire G e s = Some s'"
  shows "up_measure (up s') + (if is_up e then 1 else 0) \<le> up_measure (up s) \<and>
    down_measure (down s') + (if is_down e then 1 else 0) \<le> down_measure (down s)"
  using assms(2)
proof (cases rule: fire_cases)
  case upward
  have "down s' = down s" using up_fire_result [OF upward(3)] by blast
  with upward up_fire_measure [OF assms(1) upward(3)] show ?thesis by simp
next
  case downward
  have "up s' = up s" using down_fire_result [OF downward(3)] by blast
  with downward down_fire_measure [OF assms(1) downward(3)] show ?thesis by simp
qed simp_all

lemma run_measure:
  assumes "errgroup_documented G" "group_ok G s" "ctx_done G s" "run_events G es s = Some s'"
  shows "length (filter is_up es) \<le> up_measure (up s) \<and> length (filter is_down es) \<le> down_measure (down s)"
  using assms(2-4)
proof (induction es arbitrary: s)
  case (Cons e es)
  from Cons.prems(3) obtain s1 where 1: "fire G e s = Some s1" "run_events G es s1 = Some s'"
    by (auto split: option.splits)
  from Cons.IH [OF fire_group_ok [OF Cons.prems(1) 1(1)] ctx_done_mono [OF assms(1) Cons.prems(1) 1(1) Cons.prems(2)] 1(2)]
    fire_measure [OF Cons.prems(2) 1(1)] show ?case by (auto split: if_splits)
qed simp

text \<open>
  Shutdown is bounded. Once the context is done, because the caller cancelled or because a
  direction returned an error, each direction takes at most four more steps in any run (whatever
  the device and the tunnel answer), and as long as \<^verbatim>\<open>Run\<close> has not returned some direction can take
  its next step when its call returns: \<^verbatim>\<open>Run\<close> returns as soon as the calls in progress do.
\<close>

lemma shutdown_bounded:
  assumes "errgroup_documented G" "pump_reach G n ok s"
    and "parent_done s \<or> (\<exists>e. Some e \<in> {r. up s = UpRet r \<or> down s = DnRet r})"
    and "run_events G es s = Some s'"
  shows "length (filter is_up es) \<le> 4 \<and> length (filter is_down es) \<le> 4 \<and>
    (Run_result G s' \<noteq> None \<or> (\<exists>e. (is_up e \<or> is_down e) \<and> fire G e s' \<noteq> None))"
proof -
  have g: "group_ok G s" by (rule reach_group_ok [OF assms(2)])
  have "ctx_done G s" using ctx_done_iff [OF assms(1) g] assms(3) g by (auto simp: group_ok_def)
  from run_measure [OF assms(1) g this assms(4)]
  have m: "length (filter is_up es) \<le> up_measure (up s)" "length (filter is_down es) \<le> down_measure (down s)" by auto
  have "up_measure (up s) \<le> 4" "down_measure (down s) \<le> 4" by (cases "up s"; simp) (cases "down s"; simp)
  with m up_progress [of s' G] down_progress [of s' G] show ?thesis
    by (auto simp: Run_result_def)
qed

end
