(* ===== verification/Refinement.thy ===== *)
theory Refinement
  imports Main
begin

text \<open>
  Refinement of one event system by another, as a contract: concrete events are partial functions
  on concrete states, each is matched by a list of abstract events (empty for an internal step), and
  an abstraction function relates the states under an invariant. The lemmas lift the matching of
  single events to whole runs. It is interpreted on the pump.
\<close>

text \<open>Running a list of events; \<open>None\<close> when one of them is not enabled.\<close>

fun run_list :: "('e \<Rightarrow> 's \<Rightarrow> 's option) \<Rightarrow> 'e list \<Rightarrow> 's \<Rightarrow> 's option" where
  "run_list step [] s = Some s"
| "run_list step (e # es) s = (case step e s of None \<Rightarrow> None | Some s' \<Rightarrow> run_list step es s')"

lemma run_list_append:
  "run_list step (es @ fs) s = (case run_list step es s of None \<Rightarrow> None | Some s' \<Rightarrow> run_list step fs s')"
  by (induction es arbitrary: s) (auto split: option.splits)

lemma run_list_inv:
  assumes "run_list step es s = Some s'" "P s"
    and "\<And>e s s'. e \<in> set es \<Longrightarrow> P s \<Longrightarrow> step e s = Some s' \<Longrightarrow> P s'"
  shows "P s'"
  using assms
proof (induction es arbitrary: s)
  case (Cons e es)
  from Cons.prems(1) obtain s1 where 1: "step e s = Some s1" "run_list step es s1 = Some s'"
    by (auto split: option.splits)
  have "P s1" by (rule Cons.prems(3) [OF _ Cons.prems(2) 1(1)]) simp
  then show ?case by (rule Cons.IH [OF 1(2) _ Cons.prems(3)]) auto
qed simp

text \<open>A fact about the end of a run that holds of every earlier state, as a help for the invariant.\<close>

lemma run_list_back:
  assumes "run_list step es s = Some s'" "Q s'" "\<And>e s s'. step e s = Some s' \<Longrightarrow> Q s' \<Longrightarrow> Q s"
  shows "Q s"
  using assms by (induction es arbitrary: s) (auto split: option.splits)

lemma run_list_inv_back:
  assumes "run_list step es s = Some s'" "P s" "Q s'"
    and "\<And>e s s'. step e s = Some s' \<Longrightarrow> Q s' \<Longrightarrow> Q s"
    and "\<And>e s s'. P s \<Longrightarrow> Q s \<Longrightarrow> step e s = Some s' \<Longrightarrow> P s'"
  shows "P s'"
  using assms(1,2)
proof (induction es arbitrary: s)
  case (Cons e es)
  from Cons.prems(1) obtain s1 where 1: "step e s = Some s1" "run_list step es s1 = Some s'"
    by (auto split: option.splits)
  have "Q s" by (rule run_list_back [where Q = Q, OF Cons.prems(1) assms(3,4)])
  with Cons.prems(2) 1(1) have "P s1" by (metis assms(5))
  with 1(2) show ?case by (rule Cons.IH)
qed simp

text \<open>The abstract events of a concrete run.\<close>

fun event_trace :: "('e \<Rightarrow> 'c \<Rightarrow> 'f list) \<Rightarrow> ('e \<Rightarrow> 'c \<Rightarrow> 'c option) \<Rightarrow> 'e list \<Rightarrow> 'c \<Rightarrow> 'f list" where
  "event_trace matching step [] s = []"
| "event_trace matching step (e # es) s =
     matching e s @ (case step e s of None \<Rightarrow> [] | Some s' \<Rightarrow> event_trace matching step es s')"

locale event_refinement =
  fixes cstep :: "'e \<Rightarrow> 'c \<Rightarrow> 'c option"
    and astep :: "'f \<Rightarrow> 'a \<Rightarrow> 'a option"
    and allowed :: "'c \<Rightarrow> 'e \<Rightarrow> bool"
    and inv :: "'c \<Rightarrow> bool"
    and abst :: "'c \<Rightarrow> 'a"
    and matching :: "'e \<Rightarrow> 'c \<Rightarrow> 'f list"
  assumes inv_step: "inv s \<Longrightarrow> allowed s e \<Longrightarrow> cstep e s = Some s' \<Longrightarrow> inv s'"
    and refines_step: "inv s \<Longrightarrow> allowed s e \<Longrightarrow> cstep e s = Some s' \<Longrightarrow>
      run_list astep (matching e s) (abst s) = Some (abst s')"
    and allowed_step: "allowed s f \<Longrightarrow> cstep e s = Some s' \<Longrightarrow> allowed s' f"
begin

lemma run_refines:
  assumes "inv s" "list_all (allowed s) es" "run_list cstep es s = Some s'"
  shows "inv s' \<and> run_list astep (event_trace matching cstep es s) (abst s) = Some (abst s')"
  using assms
proof (induction es arbitrary: s)
  case (Cons e es)
  from Cons.prems(3) obtain s1 where 1: "cstep e s = Some s1" "run_list cstep es s1 = Some s'"
    by (auto split: option.splits)
  have "inv s1" using inv_step [of s e s1] 1(1) Cons.prems(1,2) by simp
  moreover have "list_all (allowed s1) es" using allowed_step 1(1) Cons.prems(2) by (auto simp: list_all_iff)
  ultimately have "inv s' \<and> run_list astep (event_trace matching cstep es s1) (abst s1) = Some (abst s')" using Cons.IH 1(2) by blast
  with refines_step [of s e s1] 1(1) Cons.prems(1,2) show ?case by (simp add: run_list_append)
qed simp

end

end
