(* ===== verification/Pump_Refine.thy ===== *)
theory Pump_Refine
  imports Pump_Correct Refinement
begin

text \<open>
  The pump without buffers: an abstract relay that holds at most one packet per direction. As long
  as arriving packets fit the pool's buffers, the pump with its heap, its pool and all interleavings
  refines the relay; the locale \<open>event_refinement\<close> is interpreted on the two.
\<close>

section \<open>The abstract relay\<close>

record relay =
  hand_up :: "bytes option"
  up_end :: "go_error option option"
  sent_frames :: "frame list"
  hand_down :: "bytes option"
  down_end :: "go_error option option"
  written :: "bytes list"

definition relay_init :: relay where
  "relay_init = \<lparr>hand_up = None, up_end = None, sent_frames = [], hand_down = None, down_end = None, written = []\<rparr>"

datatype relay_event = ARead bytes | ASend | AEndUp "go_error option" | ARecv bytes | AWrite | AEndDown "go_error option"

fun relay_step :: "relay_event \<Rightarrow> relay \<Rightarrow> relay option" where
  "relay_step (ARead p) r =
     (if up_end r = None \<and> hand_up r = None \<and> p \<noteq> [] then Some (r\<lparr>hand_up := Some p\<rparr>) else None)"
| "relay_step ASend r =
     (case hand_up r of
        Some p \<Rightarrow> if up_end r = None \<and> ip_packet p
          then Some (r\<lparr>hand_up := None, sent_frames := sent_frames r @ [packet_frame p]\<rparr>) else None
      | None \<Rightarrow> None)"
| "relay_step (AEndUp e) r = (if up_end r = None then Some (r\<lparr>hand_up := None, up_end := Some e\<rparr>) else None)"
| "relay_step (ARecv p) r =
     (if down_end r = None \<and> hand_down r = None then Some (r\<lparr>hand_down := Some p\<rparr>) else None)"
| "relay_step AWrite r =
     (case hand_down r of
        Some p \<Rightarrow> if down_end r = None then Some (r\<lparr>hand_down := None, written := written r @ [p]\<rparr>) else None
      | None \<Rightarrow> None)"
| "relay_step (AEndDown e) r = (if down_end r = None then Some (r\<lparr>hand_down := None, down_end := Some e\<rparr>) else None)"

section \<open>Abstraction\<close>

definition hand_up_of :: "'g pump_state \<Rightarrow> bytes option" where
  "hand_up_of s = (case up s of UpGot a n \<Rightarrow> Some (load a n s) | UpSend a n _ \<Rightarrow> Some (load a n s) | _ \<Rightarrow> None)"

definition up_end_of :: "'g pump_state \<Rightarrow> go_error option option" where
  "up_end_of s = (case up s of UpRet r \<Rightarrow> Some r | _ \<Rightarrow> None)"

definition hand_down_of :: "'g pump_state \<Rightarrow> bytes option" where
  "hand_down_of s = (case down s of DnCopy a p \<Rightarrow> Some p | DnWrite a n \<Rightarrow> Some (load a n s) | _ \<Rightarrow> None)"

definition down_end_of :: "'g pump_state \<Rightarrow> go_error option option" where
  "down_end_of s = (case down s of DnRet r \<Rightarrow> Some r | _ \<Rightarrow> None)"

definition relay_of :: "'g pump_state \<Rightarrow> relay" where
  "relay_of s = \<lparr>hand_up = hand_up_of s, up_end = up_end_of s, sent_frames = send_log s,
     hand_down = hand_down_of s, down_end = down_end_of s, written = write_log s\<rparr>"

fun relay_events :: "'g errgroup \<Rightarrow> event \<Rightarrow> 'g pump_state \<Rightarrow> relay_event list" where
  "relay_events G (UpLoop ch) s = (if ctx_done G s then [AEndUp None] else [])"
| "relay_events G (UpReadRet b err) s =
     (case err of Some e \<Rightarrow> [AEndUp (up_read_error e)] | None \<Rightarrow> if b = [] then [] else [ARead b])"
| "relay_events G UpDispatch s =
     (case hand_up_of s of
        Some p \<Rightarrow> if tag_dispatch (p ! 0) = None then [AEndUp (Some (unknown_version (p ! 0)))] else []
      | None \<Rightarrow> [])"
| "relay_events G (UpSendRet err) s = ASend # (case err of Some e \<Rightarrow> [AEndUp (up_send_error e)] | None \<Rightarrow> [])"
| "relay_events G DnLoop s = (if ctx_done G s then [AEndDown None] else [])"
| "relay_events G (DnRecvRet fr err ch) s =
     (case err of
        Some e \<Rightarrow> [AEndDown (down_recv_error e)]
      | None \<Rightarrow>
          (case fr of
             None \<Rightarrow> [AEndDown (Some (PumpError ReasonRecvFrameFailed ''recv frame''
               (Some (ErrorsNew ''pump: nil frame without error''))))]
           | Some f \<Rightarrow> if Close f \<noteq> None then [AEndDown None]
               else (case Packet f of None \<Rightarrow> [] | Some p \<Rightarrow> [ARecv p])))"
| "relay_events G (DnWriteRet err) s = AWrite # (case err of Some e \<Rightarrow> [AEndDown (down_write_error e)] | None \<Rightarrow> [])"
| "relay_events G _ s = []"

lemma relay_of_init: "relay_of (pump_init G n) = relay_init"
  by (simp add: relay_of_def relay_init_def pump_init_def hand_up_of_def up_end_of_def hand_down_of_def down_end_of_def)

lemma hand_up_keep:
  "up s' = up s \<Longrightarrow> \<forall>a \<in> set (owned_up (up s)). heap s' ! a = heap s ! a \<Longrightarrow> hand_up_of s' = hand_up_of s"
  by (cases "up s") (auto simp: hand_up_of_def load_def)

lemma hand_down_keep:
  "down s' = down s \<Longrightarrow> \<forall>a \<in> set (owned_down (down s)). heap s' ! a = heap s ! a \<Longrightarrow> hand_down_of s' = hand_down_of s"
  by (cases "down s") (auto simp: hand_down_of_def load_def)

text \<open>An event of one direction leaves the buffers of the other direction alone.\<close>

lemma up_fire_heap:
  assumes "pump_inv s" "up_fire G e s = Some s'"
  shows "\<forall>c \<in> set (owned_down (down s)). heap s' ! c = heap s ! c"
proof (cases e)
  case (UpLoop ch)
  show ?thesis
  proof (cases "ctx_done G s")
    case True
    with assms(2) UpLoop show ?thesis by (auto simp: up_fire.simps pump_upd_defs split: if_splits)
  next
    case False
    with assms(2) UpLoop obtain a s1 where g: "getBuf ch 0 s = Some (a, s1)" "heap s' = heap s1" and top: "up s = UpTop"
      by (auto simp: up_fire.simps split: if_splits option.splits)
    from assms(1) top have own: "own_ok (slice_size s) (heap s) (owned_down (down s) @ pool s)"
      by (simp add: pump_inv_def buffers_ok_def owners_def)
    from heap_prefix [OF own getBuf_ok(2) [OF own g(1) le0]] g(2) show ?thesis by simp
  qed
next
  case (UpReadRet b err)
  with assms(2) obtain a where up: "up s = UpRead a" and h: "heap s' = heap (store a b s)"
    by (auto simp: up_fire.simps pump_upd_defs Let_def split: up_pc.splits if_splits option.splits)
  from assms(1) up have "a \<notin> set (owned_down (down s))"
    by (auto simp: pump_inv_def buffers_ok_def owners_def own_ok_def)
  with h heap_store_other show ?thesis by metis
qed (use assms(2) in \<open>auto simp: up_fire.simps pump_upd_defs Let_def split: up_pc.splits option.splits\<close>)

lemma down_fire_heap:
  assumes "pump_inv s" "down_fire G e s = Some s'" "fits (slice_size s) e"
  shows "\<forall>c \<in> set (owned_up (up s)). heap s' ! c = heap s ! c"
proof (cases e)
  case (DnRecvRet fr err ch)
  show ?thesis
  proof (cases "heap s' = heap s")
    case False
    with assms(2) DnRecvRet obtain f p a s1 where g: "err = None" "fr = Some f" "Packet f = Some p"
      "getBuf ch (length p) s = Some (a, s1)" "heap s' = heap s1" and rv: "down s = DnRecv"
      by (auto simp: down_fire.simps pump_upd_defs split: if_splits option.splits)
    from assms(1) rv have own: "own_ok (slice_size s) (heap s) (owned_up (up s) @ pool s)"
      by (simp add: pump_inv_def buffers_ok_def owners_def)
    have "length p \<le> slice_size s" using assms(3) DnRecvRet g by simp
    from heap_prefix [OF own getBuf_ok(2) [OF own g(4) this]] g(5) show ?thesis by simp
  qed simp
next
  case DnCopyDo
  with assms(2) obtain a p where dn: "down s = DnCopy a p" and h: "heap s' = heap (store a p s)"
    by (auto simp: down_fire.simps split: down_pc.splits)
  from assms(1) dn have "a \<notin> set (owned_up (up s))"
    by (auto simp: pump_inv_def buffers_ok_def owners_def own_ok_def)
  with h heap_store_other show ?thesis by metis
qed (use assms(2) in \<open>auto simp: down_fire.simps pump_upd_defs Let_def split: down_pc.splits option.splits if_splits\<close>)

lemma up_fire_logs: "up_fire G e s = Some s' \<Longrightarrow> down s' = down s \<and> write_log s' = write_log s \<and> recv_log s' = recv_log s"
  by (cases e; cases "up s") (auto simp: up_fire.simps pump_upd_defs Let_def getBuf_fields split: if_splits option.splits)

lemma down_fire_logs: "down_fire G e s = Some s' \<Longrightarrow> up s' = up s \<and> send_log s' = send_log s \<and> read_log s' = read_log s"
  by (cases e; cases "down s") (auto simp: down_fire.simps pump_upd_defs Let_def getBuf_fields split: if_splits option.splits)

text \<open>Each direction refines its half of the relay.\<close>

lemma up_refines:
  assumes "pump_inv s" "up_fire G e s = Some s'"
  shows "run_list relay_step (relay_events G e s) (relay_of s) = Some (relay_of s')"
proof -
  note L = up_fire_logs [OF assms(2)]
  have keep: "hand_down_of s' = hand_down_of s" "down_end_of s' = down_end_of s"
    using hand_down_keep [of s' s] up_fire_heap [OF assms] L by (auto simp: down_end_of_def)
  show ?thesis
  proof (cases e)
    case (UpLoop ch)
    with assms(2) keep L show ?thesis
      by (auto simp: relay_of_def up_fire.simps pump_upd_defs hand_up_of_def up_end_of_def getBuf_fields
          split: if_splits option.splits)
  next
    case (UpReadRet b err)
    then obtain a where up: "up s = UpRead a" using assms(2) by (auto simp: up_fire.simps split: up_pc.splits)
    have "a < length (heap s)" using assms(1) up by (auto simp: pump_inv_def buffers_ok_def owners_def own_ok_def)
    with load_store_same [of a s b] assms(2) keep L up UpReadRet show ?thesis
      by (auto simp: relay_of_def up_fire.simps pump_upd_defs hand_up_of_def up_end_of_def Let_def load_def
          split: if_splits option.splits)
  next
    case UpDispatch
    with assms(2) keep L show ?thesis
      by (auto simp: relay_of_def up_fire.simps pump_upd_defs hand_up_of_def up_end_of_def Let_def load_def
          split: up_pc.splits option.splits)
  next
    case (UpSendRet err)
    then obtain a n tag where up: "up s = UpSend a n tag" using assms(2) by (auto simp: up_fire.simps split: up_pc.splits)
    have d: "0 < n" "n \<le> length (heap s ! a)" "tag_dispatch (load a n s ! 0) = Some tag"
      using assms(1) up by (auto simp: pump_inv_def up_data_def)
    have "ip_packet (load a n s)" using d by (cases "heap s ! a") (auto simp: load_def)
    moreover have "packet_frame (load a n s) = (bare_frame tag)\<lparr>Packet := Some (load a n s)\<rparr>"
      using d(3) by (simp add: packet_frame_def)
    ultimately show ?thesis using assms(2) keep L up UpSendRet
      by (auto simp: relay_of_def up_fire.simps pump_upd_defs hand_up_of_def up_end_of_def Let_def split: option.splits)
  qed (use assms(2) in \<open>simp_all add: up_fire.simps\<close>)
qed

lemma down_refines:
  assumes "pump_inv s" "down_fire G e s = Some s'" "fits (slice_size s) e"
  shows "run_list relay_step (relay_events G e s) (relay_of s) = Some (relay_of s')"
proof -
  note L = down_fire_logs [OF assms(2)]
  have keep: "hand_up_of s' = hand_up_of s" "up_end_of s' = up_end_of s"
    using hand_up_keep [of s' s] down_fire_heap [OF assms] L by (auto simp: up_end_of_def)
  show ?thesis
  proof (cases e)
    case DnCopyDo
    then obtain a p where dn: "down s = DnCopy a p" using assms(2) by (auto simp: down_fire.simps split: down_pc.splits)
    have "a < length (heap s)" using assms(1) dn by (auto simp: pump_inv_def buffers_ok_def owners_def own_ok_def)
    with load_store_same [of a s p] assms(2) keep L dn DnCopyDo show ?thesis
      by (auto simp: relay_of_def down_fire.simps hand_down_of_def down_end_of_def load_def)
  next
    case DnLoop
    with assms(2) keep L show ?thesis
      by (auto simp: relay_of_def down_fire.simps pump_upd_defs hand_down_of_def down_end_of_def split: if_splits)
  next
    case (DnRecvRet fr err ch)
    with assms(2) keep L show ?thesis
      by (auto simp: relay_of_def down_fire.simps pump_upd_defs hand_down_of_def down_end_of_def getBuf_fields
          split: if_splits option.splits)
  next
    case (DnWriteRet err)
    with assms(2) keep L show ?thesis
      by (auto simp: relay_of_def down_fire.simps pump_upd_defs hand_down_of_def down_end_of_def Let_def
          split: down_pc.splits option.splits)
  qed (use assms(2) in \<open>simp_all add: down_fire.simps\<close>)
qed

lemma idle_events: "\<not> is_up e \<Longrightarrow> \<not> is_down e \<Longrightarrow> relay_events G e s = []"
  by (cases e) simp_all

lemma relay_of_idle [simp]: "relay_of (s\<lparr>parent_done := b\<rparr>) = relay_of s" "relay_of (s\<lparr>watch := w\<rparr>) = relay_of s"
proof -
  have "load a n (s\<lparr>parent_done := b\<rparr>) = load a n s" "load a n (s\<lparr>watch := w\<rparr>) = load a n s" for a n
    by (simp_all add: load_def)
  then show "relay_of (s\<lparr>parent_done := b\<rparr>) = relay_of s" "relay_of (s\<lparr>watch := w\<rparr>) = relay_of s"
    by (cases "up s"; cases "down s"; simp add: relay_of_def hand_up_of_def up_end_of_def hand_down_of_def down_end_of_def)+
qed

interpretation pump_relay: event_refinement "fire G" relay_step "\<lambda>s. fits (slice_size s)" pump_inv relay_of "relay_events G"
  for G
proof (unfold_locales, goal_cases)
  case (1 s e s')
  then show ?case using fire_inv by blast
next
  case (2 s e s')
  from 2(3) show ?case
  proof (cases rule: fire_cases)
    case upward
    with 2 show ?thesis by (intro up_refines) auto
  next
    case downward
    with 2 show ?thesis by (intro down_refines) auto
  qed (simp_all add: idle_events)
next
  case (3 s f e s')
  then show ?case by (simp add: fire_slice_size)
qed

lemma run_events_list: "run_events G es s = run_list (fire G) es s"
  by (induction es arbitrary: s) (auto split: option.splits)

text \<open>
  C5: Refinement. Every run of the pump from its initial state, with its heap of buffers, its pool
  and any interleaving of the two directions, the watcher and the caller's cancellation, is matched
  event by event by a run of the abstract relay, which has no buffers at all and holds at most one
  packet per direction: same frames sent, same packets written, same packets in hand, same results.
  The only condition is that arriving packets fit the pool's buffers.
\<close>

theorem pump_refines_relay:
  assumes "run_events G es (pump_init G n) = Some s" "list_all (fits n) es"
  shows "run_list relay_step (event_trace (relay_events G) (fire G) es (pump_init G n)) relay_init = Some (relay_of s) \<and>
    sent_frames (relay_of s) = send_log s \<and> written (relay_of s) = write_log s"
proof -
  have "slice_size (pump_init G n) = n" by (simp add: pump_init_def)
  with pump_relay.run_refines [of "pump_init G n" es G s] pump_inv_init [of G n] assms have
    "run_list relay_step (event_trace (relay_events G) (fire G) es (pump_init G n)) (relay_of (pump_init G n)) = Some (relay_of s)"
    by (simp add: run_events_list)
  then show ?thesis by (simp add: relay_of_init) (simp add: relay_of_def)
qed

theorem pump_refines_relay_witness:
  "run_list relay_step (event_trace (relay_events list_group) (fire list_group) sample_events (pump_init list_group 4)) relay_init
     = Some (relay_of sample_state) \<and>
   sent_frames (relay_of sample_state) = send_log sample_state \<and> written (relay_of sample_state) = write_log sample_state"
  by (rule pump_refines_relay [OF sample_run]) code_simp

end
