(* ===== verification/System.thy ===== *)
theory System
  imports Codec_Stream Tunnel Tun_Device Pump_Refine
begin

text \<open>
  One host: the pump of \<^verbatim>\<open>pump_linux.go\<close> running on the real device (\<^verbatim>\<open>tun_linux.go\<close>) and the
  real stream wrapper (\<^verbatim>\<open>wrapper.go\<close>). Where the pump alone takes any answer of its device and its
  tunnel, here every call is executed: an event of the system is an event of the pump whose answer is
  computed by the models of those components. A call that can block takes two events, and what other
  goroutines do can come between them: \<^verbatim>\<open>Read\<close> and \<^verbatim>\<open>Write\<close> look at the \<^verbatim>\<open>closed\<close> flag and then wait
  in the file; \<^verbatim>\<open>RecvFrame\<close> looks at the flag under the mutex and then waits in the stream until a
  record is complete or the stream has ended; \<^verbatim>\<open>SendFrame\<close> and \<^verbatim>\<open>Close\<close> take the mutex, and keep it while
  the stream does not accept their bytes (flow control). Whoever needs the mutex meanwhile waits. When
  the kernel has or takes a packet, and when the stream accepts bytes, is up to the environment.
\<close>

section \<open>State\<close>

record ('g, 'k) system =
  pump_of :: "'g pump_state"
  dev_of :: linux_device
  os_of :: 'k
  tun_of :: tunnel
  in_open :: bool
  in_read :: bool
  in_recv :: bool
  in_write :: bool
  in_send :: bool
  in_close :: bool
  read_ready :: bool
  write_ready :: bool
  stream_ready :: bool

text \<open>The wrapper's mutex is held by a \<^verbatim>\<open>SendFrame\<close> or a \<^verbatim>\<open>Close\<close> that is writing.\<close>

definition lock_held :: "('g, 'k) system \<Rightarrow> bool" where
  "lock_held \<sigma> \<longleftrightarrow> in_send \<sigma> \<or> in_close \<sigma>"

text \<open>
  \<^verbatim>\<open>Run\<close> on this device and this tunnel: the MTU query, then the start of the goroutines; an error
  leaves the kernel state behind.
\<close>

definition sys_Run :: "'g errgroup \<Rightarrow> 'k kernel \<Rightarrow> pump \<Rightarrow> linux_device \<Rightarrow> tunnel \<Rightarrow> 'k
    \<Rightarrow> (go_error + ('g, 'k) system) \<times> 'k" where
  "sys_Run G K p d t k =
     (case tun_MTU K d k of
        (mtu, k') \<Rightarrow>
          (case pump_Run G p False False mtu of
             Inl e \<Rightarrow> (Inl e, k')
           | Inr s \<Rightarrow> (Inr \<lparr>pump_of = s, dev_of = d, os_of = k', tun_of = t, in_open = True,
               in_read = False, in_recv = False, in_write = False, in_send = False, in_close = False,
               read_ready = True, write_ready = True, stream_ready = True\<rparr>, k')))"

section \<open>Events\<close>

text \<open>
  The last four are the environment's: bytes of the peer arrive, the incoming stream ends, the kernel is
  or is not ready for reads and writes of the device, the outgoing stream accepts bytes or not.
\<close>

datatype sys_event =
    SUpLoop choice | SReadCheck | SReadDo | SDispatch | SSend | SSendDo
  | SDnLoop | SRecvCheck | SRecvDo choice | SCopy | SWriteCheck | SWriteDo
  | SCancel | SWatchDev | SWatchTun | SWatchTunDo
  | SArrive bytes | SPeerEnd go_error bool | SKernel bool bool | SFlow bool

definition lift_pump :: "'g errgroup \<Rightarrow> event \<Rightarrow> ('g, 'k) system \<Rightarrow> ('g, 'k) system option" where
  "lift_pump G e \<sigma> = map_option (\<lambda>s. \<sigma>\<lparr>pump_of := s\<rparr>) (fire G e (pump_of \<sigma>))"

fun sys_fire :: "'g errgroup \<Rightarrow> 'k kernel \<Rightarrow> sys_event \<Rightarrow> ('g, 'k) system \<Rightarrow> ('g, 'k) system option" where
  "sys_fire G K (SUpLoop ch) \<sigma> = lift_pump G (UpLoop ch) \<sigma>"
| "sys_fire G K SReadCheck \<sigma> =
     (case up (pump_of \<sigma>) of
        UpRead a \<Rightarrow>
          if in_read \<sigma> then None
          else (case read_check (dev_of \<sigma>) of
                  Some e \<Rightarrow> lift_pump G (UpReadRet [] (Some e)) \<sigma>
                | None \<Rightarrow> Some (\<sigma>\<lparr>in_read := True\<rparr>))
      | _ \<Rightarrow> None)"
| "sys_fire G K SReadDo \<sigma> =
     (case up (pump_of \<sigma>) of
        UpRead a \<Rightarrow>
          if in_read \<sigma> \<and> (f_closed (d_f (dev_of \<sigma>)) \<or> read_ready \<sigma>) then
            (case read_body K (length (heap (pump_of \<sigma>) ! a)) (dev_of \<sigma>) (os_of \<sigma>) of
               ((b, err), k) \<Rightarrow> lift_pump G (UpReadRet b err) (\<sigma>\<lparr>os_of := k, in_read := False\<rparr>))
          else None
      | _ \<Rightarrow> None)"
| "sys_fire G K SDispatch \<sigma> = lift_pump G UpDispatch \<sigma>"
| "sys_fire G K SSend \<sigma> =
     (case up (pump_of \<sigma>) of
        UpSend a n tag \<Rightarrow>
          if lock_held \<sigma> then None
          else if tn_closed (tun_of \<sigma>) then
            (case SendFrame ((bare_frame tag)\<lparr>Packet := Some (load a n (pump_of \<sigma>))\<rparr>) (tun_of \<sigma>) of
               (err, t) \<Rightarrow> lift_pump G (UpSendRet err) (\<sigma>\<lparr>tun_of := t\<rparr>))
          else Some (\<sigma>\<lparr>in_send := True\<rparr>)
      | _ \<Rightarrow> None)"
| "sys_fire G K SSendDo \<sigma> =
     (case up (pump_of \<sigma>) of
        UpSend a n tag \<Rightarrow>
          if in_send \<sigma> \<and> stream_ready \<sigma> then
            (case SendFrame ((bare_frame tag)\<lparr>Packet := Some (load a n (pump_of \<sigma>))\<rparr>) (tun_of \<sigma>) of
               (err, t) \<Rightarrow> lift_pump G (UpSendRet err) (\<sigma>\<lparr>tun_of := t, in_send := False\<rparr>))
          else None
      | _ \<Rightarrow> None)"
| "sys_fire G K SDnLoop \<sigma> = lift_pump G DnLoop \<sigma>"
| "sys_fire G K SRecvCheck \<sigma> =
     (if down (pump_of \<sigma>) \<noteq> DnRecv \<or> in_recv \<sigma> \<or> lock_held \<sigma> then None
      else (case recv_check (tun_of \<sigma>) of
              Some e \<Rightarrow> lift_pump G (DnRecvRet None (Some e) Fresh) \<sigma>
            | None \<Rightarrow> Some (\<sigma>\<lparr>in_recv := True\<rparr>)))"
| "sys_fire G K (SRecvDo ch) \<sigma> =
     (if down (pump_of \<sigma>) \<noteq> DnRecv \<or> \<not> in_recv \<sigma> then None
      else if in_open \<sigma> \<and> would_block (tn_in (tun_of \<sigma>)) then None
      else (case recv_read (tun_of \<sigma>) of
              ((fr, err), t) \<Rightarrow> lift_pump G (DnRecvRet fr err ch) (\<sigma>\<lparr>tun_of := t, in_recv := False\<rparr>)))"
| "sys_fire G K SCopy \<sigma> = lift_pump G DnCopyDo \<sigma>"
| "sys_fire G K SWriteCheck \<sigma> =
     (case down (pump_of \<sigma>) of
        DnWrite a n \<Rightarrow>
          if in_write \<sigma> then None
          else (case read_check (dev_of \<sigma>) of
                  Some e \<Rightarrow> lift_pump G (DnWriteRet (Some e)) \<sigma>
                | None \<Rightarrow> Some (\<sigma>\<lparr>in_write := True\<rparr>))
      | _ \<Rightarrow> None)"
| "sys_fire G K SWriteDo \<sigma> =
     (case down (pump_of \<sigma>) of
        DnWrite a n \<Rightarrow>
          if in_write \<sigma> \<and> (f_closed (d_f (dev_of \<sigma>)) \<or> write_ready \<sigma>) then
            (case File_Write K (load a n (pump_of \<sigma>)) (d_f (dev_of \<sigma>)) (os_of \<sigma>) of
               ((_, werr), k) \<Rightarrow> lift_pump G (DnWriteRet werr) (\<sigma>\<lparr>os_of := k, in_write := False\<rparr>))
          else None
      | _ \<Rightarrow> None)"
| "sys_fire G K SCancel \<sigma> = lift_pump G CtxCancel \<sigma>"
| "sys_fire G K SWatchDev \<sigma> =
     (case tun_Close K (dev_of \<sigma>) (os_of \<sigma>) of
        (_, d, k) \<Rightarrow> lift_pump G WatchDev (\<sigma>\<lparr>dev_of := d, os_of := k\<rparr>))"
| "sys_fire G K SWatchTun \<sigma> =
     (if lock_held \<sigma> then None
      else if tn_closed (tun_of \<sigma>) then
        lift_pump G WatchTun (\<sigma>\<lparr>tun_of := snd (tunnel_Close 0 ''pump: ctx cancel'' (tun_of \<sigma>))\<rparr>)
      else if watch (pump_of \<sigma>) = WCloseTun then Some (\<sigma>\<lparr>in_close := True\<rparr>)
      else None)"
| "sys_fire G K SWatchTunDo \<sigma> =
     (if in_close \<sigma> \<and> stream_ready \<sigma> then
        lift_pump G WatchTun (\<sigma>\<lparr>tun_of := snd (tunnel_Close 0 ''pump: ctx cancel'' (tun_of \<sigma>)), in_close := False\<rparr>)
      else None)"
| "sys_fire G K (SArrive bs) \<sigma> =
     (if in_open \<sigma>
      then Some (\<sigma>\<lparr>tun_of := (tun_of \<sigma>)\<lparr>tn_in := (tn_in (tun_of \<sigma>))\<lparr>rd_chunks := rd_chunks (tn_in (tun_of \<sigma>)) @ [bs]\<rparr>\<rparr>\<rparr>)
      else None)"
| "sys_fire G K (SPeerEnd e eager) \<sigma> =
     (if in_open \<sigma>
      then Some (\<sigma>\<lparr>in_open := False, tun_of := (tun_of \<sigma>)\<lparr>tn_in := (tn_in (tun_of \<sigma>))\<lparr>rd_err := e, rd_eager := eager\<rparr>\<rparr>\<rparr>)
      else None)"
| "sys_fire G K (SKernel r w) \<sigma> = Some (\<sigma>\<lparr>read_ready := r, write_ready := w\<rparr>)"
| "sys_fire G K (SFlow b) \<sigma> = Some (\<sigma>\<lparr>stream_ready := b\<rparr>)"

abbreviation sys_run :: "'g errgroup \<Rightarrow> 'k kernel \<Rightarrow> sys_event list \<Rightarrow> ('g, 'k) system \<Rightarrow> ('g, 'k) system option" where
  "sys_run G K \<equiv> run_list (sys_fire G K)"

section \<open>The system refines the pump\<close>

text \<open>The event of the pump behind an event of the system; checks that pass and the environment's events have none.\<close>

fun pump_events :: "'g errgroup \<Rightarrow> 'k kernel \<Rightarrow> sys_event \<Rightarrow> ('g, 'k) system \<Rightarrow> event list" where
  "pump_events G K (SUpLoop ch) \<sigma> = [UpLoop ch]"
| "pump_events G K SReadCheck \<sigma> = (case read_check (dev_of \<sigma>) of Some e \<Rightarrow> [UpReadRet [] (Some e)] | None \<Rightarrow> [])"
| "pump_events G K SReadDo \<sigma> =
     (case up (pump_of \<sigma>) of
        UpRead a \<Rightarrow> (case read_body K (length (heap (pump_of \<sigma>) ! a)) (dev_of \<sigma>) (os_of \<sigma>) of
                      ((b, err), _) \<Rightarrow> [UpReadRet b err])
      | _ \<Rightarrow> [])"
| "pump_events G K SDispatch \<sigma> = [UpDispatch]"
| "pump_events G K SSend \<sigma> =
     (if tn_closed (tun_of \<sigma>) then [UpSendRet (Some (Sentinel TransportErrClosed))] else [])"
| "pump_events G K SSendDo \<sigma> =
     (case up (pump_of \<sigma>) of
        UpSend a n tag \<Rightarrow>
          [UpSendRet (fst (SendFrame ((bare_frame tag)\<lparr>Packet := Some (load a n (pump_of \<sigma>))\<rparr>) (tun_of \<sigma>)))]
      | _ \<Rightarrow> [])"
| "pump_events G K SDnLoop \<sigma> = [DnLoop]"
| "pump_events G K SRecvCheck \<sigma> = (case recv_check (tun_of \<sigma>) of Some e \<Rightarrow> [DnRecvRet None (Some e) Fresh] | None \<Rightarrow> [])"
| "pump_events G K (SRecvDo ch) \<sigma> = (case fst (recv_read (tun_of \<sigma>)) of (fr, err) \<Rightarrow> [DnRecvRet fr err ch])"
| "pump_events G K SCopy \<sigma> = [DnCopyDo]"
| "pump_events G K SWriteCheck \<sigma> = (case read_check (dev_of \<sigma>) of Some e \<Rightarrow> [DnWriteRet (Some e)] | None \<Rightarrow> [])"
| "pump_events G K SWriteDo \<sigma> =
     (case down (pump_of \<sigma>) of
        DnWrite a n \<Rightarrow> [DnWriteRet (snd (fst (File_Write K (load a n (pump_of \<sigma>)) (d_f (dev_of \<sigma>)) (os_of \<sigma>))))]
      | _ \<Rightarrow> [])"
| "pump_events G K SCancel \<sigma> = [CtxCancel]"
| "pump_events G K SWatchDev \<sigma> = [WatchDev]"
| "pump_events G K SWatchTun \<sigma> = (if tn_closed (tun_of \<sigma>) then [WatchTun] else [])"
| "pump_events G K SWatchTunDo \<sigma> = [WatchTun]"
| "pump_events G K _ \<sigma> = []"

lemma lift_pump_Some:
  "lift_pump G e \<sigma> = Some \<sigma>' \<longleftrightarrow> (\<exists>s. fire G e (pump_of \<sigma>) = Some s \<and> \<sigma>' = \<sigma>\<lparr>pump_of := s\<rparr>)"
  by (auto simp: lift_pump_def)

lemma sys_fire_pump:
  "sys_fire G K e \<sigma> = Some \<sigma>' \<Longrightarrow> run_list (fire G) (pump_events G K e \<sigma>) (pump_of \<sigma>) = Some (pump_of \<sigma>')"
  by (cases e) (auto simp del: fire.simps simp: lift_pump_Some SendFrame_def split: up_pc.splits down_pc.splits option.splits if_splits prod.splits)

interpretation system_pump: event_refinement "sys_fire G K" "fire G" "\<lambda>_ _. True" "\<lambda>_. True" pump_of "pump_events G K"
  for G K
  by unfold_locales (auto intro: sys_fire_pump)

end
