(* ===== verification/System_Correct.thy ===== *)
theory System_Correct
  imports System
begin

text \<open>
  Properties of one host: closing, descriptors and the wrapper's mutex over the life of a pump,
  shutdown, and the two calls that no cancellation ends, a receive that waits for the peer and a send
  that the stream does not accept.
\<close>

section \<open>What an event changes\<close>

lemma fire_watch:
  "fire G e s = Some s' \<Longrightarrow> e \<noteq> WatchDev \<Longrightarrow> e \<noteq> WatchTun \<Longrightarrow> watch s' = watch s"
  by (cases e) (auto dest: up_fire_result down_fire_result)

lemma fire_WatchDev: "fire G WatchDev s = Some s' \<Longrightarrow> watch s = WWait \<and> s' = s\<lparr>watch := WCloseTun\<rparr>"
  by (auto simp: watch_fire.simps split: if_splits)

lemma fire_WatchTun: "fire G WatchTun s = Some s' \<Longrightarrow> watch s = WCloseTun \<and> s' = s\<lparr>watch := WDone\<rparr>"
  by (auto simp: watch_fire.simps split: if_splits)

lemma lift_pump_watch:
  "lift_pump G e \<sigma> = Some \<sigma>' \<Longrightarrow> e \<noteq> WatchDev \<Longrightarrow> e \<noteq> WatchTun \<Longrightarrow> watch (pump_of \<sigma>') = watch (pump_of \<sigma>)"
  by (auto simp: lift_pump_Some simp del: fire.simps dest: fire_watch)

text \<open>Only the watcher closes the device and the tunnel; sending can also close the tunnel.\<close>

lemma sys_fire_dev:
  assumes "sys_fire G K e \<sigma> = Some \<sigma>'" "e \<noteq> SWatchDev"
  shows "dev_of \<sigma>' = dev_of \<sigma>"
  using assms
  by (cases e) (auto simp del: fire.simps simp: lift_pump_Some
      split: up_pc.splits down_pc.splits option.splits if_splits prod.splits)

lemma sys_fire_watch:
  assumes "sys_fire G K e \<sigma> = Some \<sigma>'" "e \<noteq> SWatchDev" "e \<noteq> SWatchTun" "e \<noteq> SWatchTunDo"
  shows "watch (pump_of \<sigma>') = watch (pump_of \<sigma>)"
  using assms
  by (cases e) (auto simp del: fire.simps dest!: lift_pump_watch
      split: up_pc.splits down_pc.splits option.splits if_splits prod.splits)

lemma sys_fire_closed:
  assumes "sys_fire G K e \<sigma> = Some \<sigma>'" "tn_closed (tun_of \<sigma>)"
  shows "tn_closed (tun_of \<sigma>')"
  using assms
  by (cases e) (auto simp del: fire.simps simp: lift_pump_Some recv_read_def tunnel_Close_def SendFrame_def
      split: up_pc.splits down_pc.splits option.splits if_splits prod.splits)

section \<open>Descriptors and closing over the life of a pump\<close>

text \<open>
  The device is closed from the watcher's first step on, the tunnel from its second; the only
  descriptor of the host is the device's, until it is closed.
\<close>

definition flags_inv :: "('g, 'k) system \<Rightarrow> bool" where
  "flags_inv \<sigma> \<longleftrightarrow> d_closed (dev_of \<sigma>) = (watch (pump_of \<sigma>) \<noteq> WWait) \<and>
     f_closed (d_f (dev_of \<sigma>)) = d_closed (dev_of \<sigma>) \<and> (watch (pump_of \<sigma>) = WDone \<longrightarrow> tn_closed (tun_of \<sigma>))"

definition close_inv :: "('k \<Rightarrow> fd set) \<Rightarrow> fd set \<Rightarrow> ('g, 'k) system \<Rightarrow> bool" where
  "close_inv fds base \<sigma> \<longleftrightarrow> flags_inv \<sigma> \<and> f_fd (d_f (dev_of \<sigma>)) \<notin> base \<and>
     fds (os_of \<sigma>) = (if d_closed (dev_of \<sigma>) then base else insert (f_fd (d_f (dev_of \<sigma>))) base)"

text \<open>The watcher's first step, on a device that is still open.\<close>

lemma watch_dev_step:
  assumes "flags_inv \<sigma>" "sys_fire G K SWatchDev \<sigma> = Some \<sigma>'"
  shows "watch (pump_of \<sigma>) = WWait \<and> watch (pump_of \<sigma>') = WCloseTun \<and>
    dev_of \<sigma>' = (dev_of \<sigma>)\<lparr>d_f := (d_f (dev_of \<sigma>))\<lparr>f_closed := True\<rparr>, d_closed := True\<rparr> \<and>
    os_of \<sigma>' = snd (unix_Close K (f_fd (d_f (dev_of \<sigma>))) (os_of \<sigma>)) \<and> \<not> d_closed (dev_of \<sigma>)"
proof -
  let ?d = "dev_of \<sigma>"
  obtain x k where c: "unix_Close K (f_fd (d_f ?d)) (os_of \<sigma>) = (x, k)" by fastforce
  from assms(2) have w: "watch (pump_of \<sigma>) = WWait"
    by (auto simp del: fire.simps simp: lift_pump_Some split: prod.splits dest!: fire_WatchDev)
  with assms(1) have "\<not> d_closed ?d" "\<not> f_closed (d_f ?d)" by (auto simp: flags_inv_def)
  with c have "tun_Close K ?d (os_of \<sigma>) = (x, ?d\<lparr>d_f := (d_f ?d)\<lparr>f_closed := True\<rparr>, d_closed := True\<rparr>, k)"
    by (simp add: tun_Close_def File_Close_def)
  with assms(2) c w \<open>\<not> d_closed ?d\<close> show ?thesis
    by (auto simp del: fire.simps simp: lift_pump_Some dest!: fire_WatchDev)
qed

lemma flags_inv_step:
  assumes "flags_inv \<sigma>" "sys_fire G K e \<sigma> = Some \<sigma>'"
  shows "flags_inv \<sigma>'"
proof (cases "e = SWatchDev")
  case True
  with watch_dev_step [OF assms(1)] assms(2) have "watch (pump_of \<sigma>') = WCloseTun"
    "dev_of \<sigma>' = (dev_of \<sigma>)\<lparr>d_f := (d_f (dev_of \<sigma>))\<lparr>f_closed := True\<rparr>, d_closed := True\<rparr>" by blast+
  then show ?thesis by (simp add: flags_inv_def)
next
  case False
  note dev = sys_fire_dev [OF assms(2) False]
  show ?thesis
  proof (cases "e = SWatchTun \<or> e = SWatchTunDo")
    case True
    with assms(2) consider "watch (pump_of \<sigma>) = WCloseTun" "watch (pump_of \<sigma>') = WDone"
      "tun_of \<sigma>' = snd (tunnel_Close 0 ''pump: ctx cancel'' (tun_of \<sigma>))"
      | "watch (pump_of \<sigma>') = WCloseTun" "watch (pump_of \<sigma>) = WCloseTun"
      by (auto simp del: fire.simps simp: lift_pump_Some dest!: fire_WatchTun split: if_splits)
    then show ?thesis
      by cases (use dev assms(1) tunnel_Close_closes [of 0 "''pump: ctx cancel''" "tun_of \<sigma>"] in \<open>auto simp: flags_inv_def prod_eq_iff\<close>)
  next
    case other: False
    with dev assms(1) sys_fire_watch [OF assms(2) False] sys_fire_closed [OF assms(2)]
    show ?thesis by (auto simp: flags_inv_def)
  qed
qed

lemma sys_fire_os:
  assumes "fds_documented K fds" "sys_fire G K e \<sigma> = Some \<sigma>'" "e \<noteq> SWatchDev"
  shows "fds (os_of \<sigma>') = fds (os_of \<sigma>)"
proof (cases e)
  case SReadDo
  with assms(2) obtain a b err k where "read_body K (length (heap (pump_of \<sigma>) ! a)) (dev_of \<sigma>) (os_of \<sigma>) = ((b, err), k)"
    "os_of \<sigma>' = k"
    by (auto simp del: fire.simps simp: lift_pump_Some split: up_pc.splits if_splits prod.splits)
  then show ?thesis
    using File_fds(1) [OF assms(1), of "length (heap (pump_of \<sigma>) ! a)" "d_f (dev_of \<sigma>)" "os_of \<sigma>"]
    by (simp add: read_body_def)
next
  case SWriteDo
  with assms(2) obtain a n r k where "File_Write K (load a n (pump_of \<sigma>)) (d_f (dev_of \<sigma>)) (os_of \<sigma>) = (r, k)"
    "os_of \<sigma>' = k"
    by (auto simp del: fire.simps simp: lift_pump_Some split: down_pc.splits if_splits prod.splits)
  then show ?thesis
    using File_fds(2) [OF assms(1), of "load a n (pump_of \<sigma>)" "d_f (dev_of \<sigma>)" "os_of \<sigma>"] by simp
qed (use assms(2,3) in \<open>auto simp del: fire.simps simp: lift_pump_Some
      split: up_pc.splits down_pc.splits option.splits if_splits prod.splits\<close>)

lemma close_inv_step:
  assumes "fds_documented K fds" "close_inv fds base \<sigma>" "sys_fire G K e \<sigma> = Some \<sigma>'"
  shows "close_inv fds base \<sigma>'"
proof -
  have f: "flags_inv \<sigma>'" using flags_inv_step [OF _ assms(3)] assms(2) by (simp add: close_inv_def)
  show ?thesis
  proof (cases "e = SWatchDev")
    case True
    have "flags_inv \<sigma>" using assms(2) by (simp add: close_inv_def)
    from watch_dev_step [OF this] assms(3) True have w:
      "dev_of \<sigma>' = (dev_of \<sigma>)\<lparr>d_f := (d_f (dev_of \<sigma>))\<lparr>f_closed := True\<rparr>, d_closed := True\<rparr>"
      "os_of \<sigma>' = snd (unix_Close K (f_fd (d_f (dev_of \<sigma>))) (os_of \<sigma>))" "\<not> d_closed (dev_of \<sigma>)" by blast+
    have "fds (os_of \<sigma>') = fds (os_of \<sigma>) - {f_fd (d_f (dev_of \<sigma>))}" unfolding w(2) by (rule fds_documentedD(5) [OF assms(1)])
    with w(1,3) assms(2) f show ?thesis by (simp add: close_inv_def)
  next
    case False
    with sys_fire_dev [OF assms(3) False] sys_fire_os [OF assms(1,3) False] assms(2) f show ?thesis by (simp add: close_inv_def)
  qed
qed

lemma sys_Run_start:
  assumes "sys_Run G K p d t k = (Inr \<sigma>, k')"
  shows "pump_of \<sigma> = pump_init G (slice_size (pump_of \<sigma>)) \<and> dev_of \<sigma> = d \<and> tun_of \<sigma> = t \<and> in_open \<sigma> \<and>
    \<not> in_read \<sigma> \<and> \<not> in_recv \<sigma> \<and> \<not> in_write \<sigma> \<and> \<not> lock_held \<sigma> \<and> os_of \<sigma> = k' \<and> k' = snd (tun_MTU K d k)"
  using assms by (auto simp: sys_Run_def pump_Run_def pump_init_def lock_held_def split: prod.splits sum.splits)

lemma sys_Run_watch: "sys_Run G K p d t k = (Inr \<sigma>, k') \<Longrightarrow> watch (pump_of \<sigma>) = WWait"
  by (auto simp: sys_Run_def pump_Run_def pump_init_def split: prod.splits sum.splits)

lemma sys_Run_open: "sys_Run G K p d t k = (Inr \<sigma>, k') \<Longrightarrow> \<not> d_closed d"
  by (auto simp: sys_Run_def pump_Run_def Run_startup_def tun_MTU_def)

section \<open>The mutex\<close>

text \<open>
  A \<^verbatim>\<open>SendFrame\<close> that holds the mutex is the one \<^verbatim>\<open>pumpUp\<close> is in, a \<^verbatim>\<open>Close\<close> that holds it the
  watcher's; never both, and the tunnel is open as long as one of them does.
\<close>

definition lock_inv :: "('g, 'k) system \<Rightarrow> bool" where
  "lock_inv \<sigma> \<longleftrightarrow> (in_send \<sigma> \<longrightarrow> (\<exists>a n tag. up (pump_of \<sigma>) = UpSend a n tag) \<and> \<not> in_close \<sigma>) \<and>
     (in_close \<sigma> \<longrightarrow> watch (pump_of \<sigma>) = WCloseTun) \<and> (lock_held \<sigma> \<longrightarrow> \<not> tn_closed (tun_of \<sigma>)) \<and>
     (watch (pump_of \<sigma>) = WDone \<longrightarrow> tn_closed (tun_of \<sigma>))"

lemma down_fire_keeps: "down_fire G e s = Some s' \<Longrightarrow> up s' = up s \<and> watch s' = watch s"
  by (drule down_fire_result) simp

lemma up_fire_keeps: "up_fire G e s = Some s' \<Longrightarrow> down s' = down s \<and> watch s' = watch s"
  by (drule up_fire_result) simp

lemma fire_sending:
  assumes "fire G e s = Some s'" "up s = UpSend a n tag" "\<And>err. e \<noteq> UpSendRet err"
  shows "up s' = UpSend a n tag"
proof (cases e)
  case (UpSendRet err)
  with assms(3) show ?thesis by blast
qed (use assms(1,2) in \<open>auto simp: up_fire.simps watch_fire.simps dest: down_fire_keeps split: if_splits\<close>)

text \<open>The events that take or release the mutex, or belong to the watcher.\<close>

abbreviation lock_event :: "sys_event \<Rightarrow> bool" where
  "lock_event e \<equiv> e \<in> {SSend, SSendDo, SWatchDev, SWatchTun, SWatchTunDo}"

lemma lift_sending:
  assumes "lift_pump G e \<tau> = Some \<sigma>'" "\<And>err. e \<noteq> UpSendRet err" "up (pump_of \<tau>) = UpSend a n tag"
  shows "up (pump_of \<sigma>') = UpSend a n tag"
proof -
  from assms(1) obtain s where "fire G e (pump_of \<tau>) = Some s" "\<sigma>' = \<tau>\<lparr>pump_of := s\<rparr>" by (auto simp only: lift_pump_Some)
  with fire_sending [OF _ assms(3,2)] show ?thesis by simp
qed

lemma lift_rest:
  "lift_pump G e \<tau> = Some \<sigma>' \<Longrightarrow> tun_of \<sigma>' = tun_of \<tau> \<and> in_send \<sigma>' = in_send \<tau> \<and> in_close \<sigma>' = in_close \<tau>"
  by (auto simp del: fire.simps simp: lift_pump_Some)

lemma lock_frame:
  assumes "sys_fire G K e \<sigma> = Some \<sigma>'" "\<not> lock_event e"
  shows "in_send \<sigma>' = in_send \<sigma> \<and> in_close \<sigma>' = in_close \<sigma> \<and> tn_closed (tun_of \<sigma>') = tn_closed (tun_of \<sigma>)"
  using assms
  by (cases e) (auto simp del: fire.simps simp: recv_read_def dest!: lift_rest
      split: up_pc.splits down_pc.splits option.splits if_splits prod.splits)

lemma sending_frame_kept:
  assumes "sys_fire G K e \<sigma> = Some \<sigma>'" "\<not> lock_event e" "up (pump_of \<sigma>) = UpSend a n tag"
  shows "up (pump_of \<sigma>') = UpSend a n tag"
  using assms
  by (cases e) (auto simp del: fire.simps dest!: lift_sending
      split: down_pc.splits option.splits if_splits prod.splits)

lemma tunnel_Close_snd: "tn_closed (snd (tunnel_Close code msg t))"
  using tunnel_Close_closes [of code msg t] by (simp add: prod_eq_iff)

lemma lock_taken:
  assumes "lock_inv \<sigma>" "sys_fire G K e \<sigma> = Some \<sigma>'" "e = SSend \<or> e = SSendDo" "lock_held \<sigma>'"
  shows "\<sigma>' = \<sigma>\<lparr>in_send := True\<rparr> \<and> \<not> in_close \<sigma> \<and> \<not> tn_closed (tun_of \<sigma>) \<and> (\<exists>a n tag. up (pump_of \<sigma>) = UpSend a n tag)"
proof -
  from assms(2,3) obtain a n tag where up: "up (pump_of \<sigma>) = UpSend a n tag" by (auto split: up_pc.splits)
  obtain err t where f: "SendFrame ((bare_frame tag)\<lparr>Packet := Some (load a n (pump_of \<sigma>))\<rparr>) (tun_of \<sigma>) = (err, t)" by fastforce
  show ?thesis
  proof (cases "e = SSend \<and> \<not> tn_closed (tun_of \<sigma>)")
    case True
    with assms(2) up show ?thesis by (auto simp: lock_held_def split: if_splits)
  next
    case False
    with assms(1-3) up f lift_rest have "\<not> in_send \<sigma>' \<and> \<not> in_close \<sigma>'"
      by (fastforce simp: lock_held_def lock_inv_def split: if_splits)
    with assms(4) show ?thesis by (simp add: lock_held_def)
  qed
qed

lemma lock_inv_send:
  assumes "lock_inv \<sigma>" "sys_fire G K e \<sigma> = Some \<sigma>'" "e = SSend \<or> e = SSendDo"
  shows "lock_inv \<sigma>'"
proof (cases "lock_held \<sigma>'")
  case True
  with lock_taken [OF assms] assms(1) show ?thesis by (auto simp: lock_inv_def lock_held_def)
next
  case False
  have "watch (pump_of \<sigma>') = watch (pump_of \<sigma>)" using assms(2,3) by (intro sys_fire_watch) auto
  with False sys_fire_closed [OF assms(2)] assms(1) show ?thesis by (auto simp: lock_inv_def lock_held_def)
qed

lemma lock_inv_watch:
  assumes "lock_inv \<sigma>" "sys_fire G K e \<sigma> = Some \<sigma>'" "e \<in> {SWatchDev, SWatchTun, SWatchTunDo}"
  shows "lock_inv \<sigma>'"
  using assms
  by (auto simp del: fire.simps simp: lock_inv_def lock_held_def lift_pump_Some tunnel_Close_snd
      dest!: fire_WatchDev fire_WatchTun split: if_splits prod.splits)

lemma lock_inv_step:
  assumes "lock_inv \<sigma>" "sys_fire G K e \<sigma> = Some \<sigma>'"
  shows "lock_inv \<sigma>'"
proof (cases "lock_event e")
  case True
  with lock_inv_send [OF assms] lock_inv_watch [OF assms] show ?thesis by blast
next
  case False
  with lock_frame [OF assms(2) False] sending_frame_kept [OF assms(2) False] sys_fire_watch [OF assms(2)] assms(1)
  show ?thesis unfolding lock_inv_def lock_held_def by auto
qed

lemma run_lock_inv:
  assumes "sys_Run G K p d t k = (Inr \<sigma>0, k2)" "sys_run G K es \<sigma>0 = Some \<sigma>"
  shows "lock_inv \<sigma>"
proof (rule run_list_inv [OF assms(2)])
  show "lock_inv \<sigma>0" using sys_Run_start [OF assms(1)] sys_Run_watch [OF assms(1)]
    by (auto simp: lock_inv_def lock_held_def)
qed (rule lock_inv_step)

section \<open>Release of the resources\<close>

lemma send_completes:
  assumes "lock_inv \<sigma>" "in_send \<sigma>" "stream_ready \<sigma>"
  shows "\<exists>\<sigma>'. sys_fire G K SSendDo \<sigma> = Some \<sigma>' \<and> \<not> lock_held \<sigma>' \<and> stream_ready \<sigma>' \<and> watch (pump_of \<sigma>') = watch (pump_of \<sigma>)"
  using assms
  by (auto simp: lock_inv_def lock_held_def lift_pump_def up_fire.simps Let_def pump_upd_defs split: prod.split option.split)

lemma close_completes:
  assumes "lock_inv \<sigma>" "\<not> in_send \<sigma>" "stream_ready \<sigma>" "watch (pump_of \<sigma>) = WCloseTun"
  shows "\<exists>fs \<sigma>'. set fs \<subseteq> {SWatchTun, SWatchTunDo} \<and> length fs \<le> 2 \<and> sys_run G K fs \<sigma> = Some \<sigma>' \<and> watch (pump_of \<sigma>') = WDone"
proof -
  have "sys_fire G K SWatchTunDo (\<sigma>\<lparr>in_close := True\<rparr>) \<noteq> None \<and>
      (\<forall>\<sigma>'. sys_fire G K SWatchTunDo (\<sigma>\<lparr>in_close := True\<rparr>) = Some \<sigma>' \<longrightarrow> watch (pump_of \<sigma>') = WDone)"
    using assms(3,4) by (auto simp: lift_pump_def watch_fire.simps)
  then obtain \<sigma>' where d: "sys_fire G K SWatchTunDo (\<sigma>\<lparr>in_close := True\<rparr>) = Some \<sigma>'" "watch (pump_of \<sigma>') = WDone" by auto
  consider "in_close \<sigma>" | "\<not> in_close \<sigma>" "tn_closed (tun_of \<sigma>)" | "\<not> in_close \<sigma>" "\<not> tn_closed (tun_of \<sigma>)" by blast
  then show ?thesis
  proof cases
    case 1
    then have "\<sigma>\<lparr>in_close := True\<rparr> = \<sigma>" by simp
    with d show ?thesis by (intro exI [of _ "[SWatchTunDo]"] exI [of _ \<sigma>']) (simp del: sys_fire.simps)
  next
    case 2
    with assms(2,4) show ?thesis
      by (intro exI [of _ "[SWatchTun]"]) (auto simp: lock_held_def lift_pump_def watch_fire.simps)
  next
    case 3
    with assms(2,4) have "sys_fire G K SWatchTun \<sigma> = Some (\<sigma>\<lparr>in_close := True\<rparr>)" by (simp add: lock_held_def)
    with d show ?thesis by (intro exI [of _ "[SWatchTun, SWatchTunDo]"] exI [of _ \<sigma>']) (simp del: sys_fire.simps)
  qed
qed

lemma watcher_finishes:
  assumes "lock_inv \<sigma>" "stream_ready \<sigma>" "watch (pump_of \<sigma>) \<noteq> WWait"
  shows "\<exists>fs \<sigma>'. set fs \<subseteq> {SSendDo, SWatchTun, SWatchTunDo} \<and> length fs \<le> 3 \<and> sys_run G K fs \<sigma> = Some \<sigma>' \<and>
    watch (pump_of \<sigma>') = WDone"
proof (cases "watch (pump_of \<sigma>) = WDone")
  case True
  then show ?thesis by (intro exI [of _ "[]"]) simp
next
  case False
  with assms(3) have w: "watch (pump_of \<sigma>) = WCloseTun" by (cases "watch (pump_of \<sigma>)") auto
  show ?thesis
  proof (cases "in_send \<sigma>")
    case True
    from send_completes [OF assms(1) True assms(2)] obtain \<sigma>1 where 1: "sys_fire G K SSendDo \<sigma> = Some \<sigma>1"
      "\<not> lock_held \<sigma>1" "stream_ready \<sigma>1" "watch (pump_of \<sigma>1) = WCloseTun" using w by metis
    from close_completes [OF lock_inv_step [OF assms(1) 1(1)] _ 1(3,4)] 1(2) obtain fs \<sigma>' where
      "set fs \<subseteq> {SWatchTun, SWatchTunDo}" "length fs \<le> 2" "sys_run G K fs \<sigma>1 = Some \<sigma>'" "watch (pump_of \<sigma>') = WDone"
      unfolding lock_held_def by blast
    with 1(1) show ?thesis by (intro exI [of _ "SSendDo # fs"] exI [of _ \<sigma>']) (auto simp del: sys_fire.simps)
  next
    case False
    from close_completes [OF assms(1) False assms(2) w] obtain fs \<sigma>' where
      "set fs \<subseteq> {SWatchTun, SWatchTunDo}" "length fs \<le> 2" "sys_run G K fs \<sigma> = Some \<sigma>'" "watch (pump_of \<sigma>') = WDone" by blast
    then show ?thesis by (intro exI [of _ fs] exI [of _ \<sigma>']) auto
  qed
qed

lemma watch_dev_enabled:
  assumes "Run_result G (pump_of \<sigma>) \<noteq> None \<or> ctx_done G (pump_of \<sigma>)" "watch (pump_of \<sigma>) = WWait"
  shows "\<exists>\<sigma>'. sys_fire G K SWatchDev \<sigma> = Some \<sigma>' \<and> watch (pump_of \<sigma>') = WCloseTun \<and> stream_ready \<sigma>' = stream_ready \<sigma>"
proof -
  have "both_returned (pump_of \<sigma>) \<or> ctx_done G (pump_of \<sigma>)"
    using assms(1) by (auto simp: Run_result_def both_returned_def split: up_pc.splits down_pc.splits)
  with assms(2) show ?thesis by (auto simp: lift_pump_def watch_fire.simps split: prod.splits)
qed

text \<open>
  C11: The life of a host, from \<^verbatim>\<open>Open\<close> to the end. Open a device, run the pump on it and on any
  tunnel, with any interleaving and any faults. Once \<^verbatim>\<open>Run\<close> has returned, or the context is done, the
  watcher can close the device, without waiting for anybody, if it has not yet, and then the process has
  exactly the descriptors it had before \<^verbatim>\<open>Open\<close>. If moreover the stream accepts bytes, the watcher can
  finish in at most three more steps, one of them the end of a \<^verbatim>\<open>SendFrame\<close> that holds the mutex, and
  then the tunnel is closed too. (When the stream does not accept bytes, the tunnel's \<^verbatim>\<open>Close\<close> waits,
  for its own write or for the mutex.)
\<close>

theorem host_releases:
  assumes "fds_documented K fds" "tun_Open K name k = (Inr d, k1)" "sys_Run G K p d t k1 = (Inr \<sigma>0, k2)"
    and "sys_run G K es \<sigma>0 = Some \<sigma>" "Run_result G (pump_of \<sigma>) \<noteq> None \<or> ctx_done G (pump_of \<sigma>)"
  shows "\<exists>\<sigma>1. sys_run G K (if watch (pump_of \<sigma>) = WWait then [SWatchDev] else []) \<sigma> = Some \<sigma>1 \<and>
    d_closed (dev_of \<sigma>1) \<and> fds (os_of \<sigma>1) = fds k \<and>
    (stream_ready \<sigma> \<longrightarrow> (\<exists>fs \<sigma>2. set fs \<subseteq> {SSendDo, SWatchTun, SWatchTunDo} \<and> length fs \<le> 3 \<and> sys_run G K fs \<sigma>1 = Some \<sigma>2 \<and>
       d_closed (dev_of \<sigma>2) \<and> tn_closed (tun_of \<sigma>2) \<and> fds (os_of \<sigma>2) = fds k))"
proof -
  let ?I = "\<lambda>\<sigma>. close_inv fds (fds k) \<sigma> \<and> lock_inv \<sigma>"
  have "close_inv fds (fds k) \<sigma>0"
    using tun_Open_fds [OF assms(1,2)] sys_Run_start [OF assms(3)] sys_Run_watch [OF assms(3)] tun_MTU_fds [OF assms(1), of d k1]
    by (simp add: close_inv_def flags_inv_def)
  then have "close_inv fds (fds k) \<sigma>"
    by (rule run_list_inv [OF assms(4)]) (rule close_inv_step [OF assms(1)])
  then have I: "?I \<sigma>" using run_lock_inv [OF assms(3,4)] by simp
  have keep: "?I \<tau>" if "sys_run G K fs \<rho> = Some \<tau>" "?I \<rho>" for fs \<rho> \<tau>
    by (rule run_list_inv [where P = ?I, OF that]) (auto intro: close_inv_step [OF assms(1)] lock_inv_step)
  have fin: "d_closed (dev_of \<tau>) \<and> fds (os_of \<tau>) = fds k \<and> (watch (pump_of \<tau>) = WDone \<longrightarrow> tn_closed (tun_of \<tau>))"
    if "?I \<tau>" "watch (pump_of \<tau>) \<noteq> WWait" for \<tau> using that by (simp add: close_inv_def flags_inv_def)
  obtain \<sigma>1 where 1: "sys_run G K (if watch (pump_of \<sigma>) = WWait then [SWatchDev] else []) \<sigma> = Some \<sigma>1"
    "watch (pump_of \<sigma>1) \<noteq> WWait" "stream_ready \<sigma>1 = stream_ready \<sigma>"
    using watch_dev_enabled [OF assms(5), of K] by (cases "watch (pump_of \<sigma>) = WWait") (auto simp del: sys_fire.simps)
  have "\<exists>fs \<sigma>2. set fs \<subseteq> {SSendDo, SWatchTun, SWatchTunDo} \<and> length fs \<le> 3 \<and> sys_run G K fs \<sigma>1 = Some \<sigma>2 \<and>
       d_closed (dev_of \<sigma>2) \<and> tn_closed (tun_of \<sigma>2) \<and> fds (os_of \<sigma>2) = fds k" if "stream_ready \<sigma>"
    using watcher_finishes [of \<sigma>1 G K] keep [OF 1(1) I] 1(2,3) that fin keep by (metis watch_pc.distinct(3))
  with 1(1) fin [OF keep [OF 1(1) I] 1(2)] show ?thesis by blast
qed

definition quiet_tunnel :: tunnel where
  "quiet_tunnel = Wrap \<lparr>rd_chunks = [], rd_err = Sentinel EOF, rd_eager = False\<rparr> \<lparr>wr_out = [], wr_faults = []\<rparr>"

definition idle_host :: "(go_error option list, fd list) system" where
  "idle_host = \<lparr>pump_of = pump_init list_group 1532, dev_of = sample_device, os_of = [1], tun_of = quiet_tunnel,
     in_open = True, in_read = False, in_recv = False, in_write = False, in_send = False, in_close = False,
     read_ready = True, write_ready = True, stream_ready = True\<rparr>"

lemma idle_host_Run:
  "sys_Run list_group sample_kernel (pump_New \<lparr>BufferOverhead = 0\<rparr>) sample_device quiet_tunnel [1] = (Inr idle_host, [1])"
  by code_simp

text \<open>The sample host after the caller's cancellation, with both directions returned.\<close>

definition stopped_host :: "(go_error option list, fd list) system" where
  "stopped_host = idle_host\<lparr>pump_of := (pump_of idle_host)
     \<lparr>up := UpRet None, down := DnRet None, parent_done := True, group := [None, None], results := [None, None]\<rparr>\<rparr>"

lemma stopped_run: "sys_run list_group sample_kernel [SCancel, SUpLoop Fresh, SDnLoop] idle_host = Some stopped_host"
  by code_simp

theorem host_releases_witness:
  "\<exists>\<sigma>1 fs \<sigma>2. sys_run list_group sample_kernel [SWatchDev] stopped_host = Some \<sigma>1 \<and> set (os_of \<sigma>1) = {} \<and>
    sys_run list_group sample_kernel fs \<sigma>1 = Some \<sigma>2 \<and> d_closed (dev_of \<sigma>2) \<and> tn_closed (tun_of \<sigma>2) \<and> set (os_of \<sigma>2) = {}"
proof -
  have "watch (pump_of stopped_host) = WWait" "Run_result list_group (pump_of stopped_host) \<noteq> None" "stream_ready stopped_host"
    by code_simp+
  with host_releases [OF sample_kernel_documented sample_Open idle_host_Run stopped_run] show ?thesis by fastforce
qed

section \<open>A receive that cancellation does not end\<close>

fun from_peer :: "sys_event \<Rightarrow> bool" where
  "from_peer (SArrive _) = True"
| "from_peer (SPeerEnd _ _) = True"
| "from_peer _ = False"

definition stuck_recv :: "('g, 'k) system \<Rightarrow> bool" where
  "stuck_recv \<sigma> \<longleftrightarrow> down (pump_of \<sigma>) = DnRecv \<and> in_recv \<sigma> \<and> in_open \<sigma> \<and> would_block (tn_in (tun_of \<sigma>))"

lemma tunnel_in_kept:
  "SendFrame f t = (e, t') \<Longrightarrow> tn_in t' = tn_in t" "tn_in (snd (tunnel_Close code msg t)) = tn_in t"
  by (auto simp: SendFrame_def tunnel_Close_def split: if_splits prod.splits option.splits)

lemma up_fire_down: "up_fire G e s = Some s' \<Longrightarrow> down s' = down s"
  by (drule up_fire_result) simp

lemma stuck_recv_step:
  assumes "stuck_recv \<sigma>" "\<not> from_peer e" "sys_fire G K e \<sigma> = Some \<sigma>'"
  shows "stuck_recv \<sigma>'"
  using assms
  by (cases e) (auto simp: stuck_recv_def lift_pump_Some down_fire.simps watch_fire.simps tunnel_in_kept dest: up_fire_down
      split: up_pc.splits down_pc.splits option.splits if_splits prod.splits)

text \<open>
  C12: Cancellation does not end a receive. When \<^verbatim>\<open>pumpDown\<close> waits in the wrapper's
  \<^verbatim>\<open>RecvFrame\<close> for a record that has not arrived completely, then as long as nothing arrives from
  the peer it stays there and \<^verbatim>\<open>Run\<close> does not return, whatever else happens: the caller cancels,
  \<^verbatim>\<open>pumpUp\<close> returns, the watcher closes the device and the tunnel. The wrapper's \<^verbatim>\<open>Close\<close> only
  writes a Close record; it does not touch the side the blocked read is on.
\<close>

theorem cancel_leaves_recv_blocked:
  assumes "down (pump_of \<sigma>) = DnRecv" "in_recv \<sigma>" "in_open \<sigma>" "would_block (tn_in (tun_of \<sigma>))"
    and "sys_run G K es \<sigma> = Some \<sigma>'" "list_all (\<lambda>e. \<not> from_peer e) es"
  shows "down (pump_of \<sigma>') = DnRecv \<and> Run_result G (pump_of \<sigma>') = None"
proof -
  have "stuck_recv \<sigma>" using assms(1-4) by (simp add: stuck_recv_def)
  then have "stuck_recv \<sigma>'"
    by (rule run_list_inv [OF assms(5)]) (use assms(6) in \<open>auto simp: list_all_iff intro: stuck_recv_step\<close>)
  then show ?thesis by (auto simp: stuck_recv_def Run_result_def split: up_pc.splits)
qed

text \<open>The sample host: cancelled while it waits for the rest of a record, everything else is over.\<close>

definition waiting_host :: "(go_error option list, fd list) system" where
  "waiting_host = (the (sys_run list_group sample_kernel [SDnLoop, SRecvCheck, SArrive [4, 0]] idle_host))"

theorem cancel_leaves_recv_blocked_witness:
  "\<exists>\<sigma>'. sys_run list_group sample_kernel [SCancel, SUpLoop Fresh, SWatchDev, SWatchTun, SWatchTunDo] waiting_host = Some \<sigma>' \<and>
     up (pump_of \<sigma>') = UpRet None \<and> watch (pump_of \<sigma>') = WDone \<and> tn_closed (tun_of \<sigma>') \<and>
     down (pump_of \<sigma>') = DnRecv \<and> Run_result list_group (pump_of \<sigma>') = None"
proof -
  let ?es = "[SCancel, SUpLoop Fresh, SWatchDev, SWatchTun, SWatchTunDo]"
  have w: "down (pump_of waiting_host) = DnRecv" "in_recv waiting_host" "in_open waiting_host"
    "would_block (tn_in (tun_of waiting_host))" by code_simp+
  have "case sys_run list_group sample_kernel ?es waiting_host of None \<Rightarrow> False
    | Some \<sigma>' \<Rightarrow> up (pump_of \<sigma>') = UpRet None \<and> watch (pump_of \<sigma>') = WDone \<and> tn_closed (tun_of \<sigma>')" by code_simp
  then obtain \<sigma>' where s: "sys_run list_group sample_kernel ?es waiting_host = Some \<sigma>'" "up (pump_of \<sigma>') = UpRet None"
    "watch (pump_of \<sigma>') = WDone" "tn_closed (tun_of \<sigma>')" by (simp split: option.splits del: run_list.simps)
  with cancel_leaves_recv_blocked [OF w s(1)] show ?thesis by simp
qed

section \<open>Shutdown of a host\<close>

text \<open>
  The steps of the host itself, of the two directions and the watcher, and how many of them can still
  be taken once the context is done.
\<close>

fun own_step :: "sys_event \<Rightarrow> bool" where
  "own_step SCancel = False"
| "own_step (SArrive _) = False"
| "own_step (SPeerEnd _ _) = False"
| "own_step (SKernel _ _) = False"
| "own_step (SFlow _) = False"
| "own_step _ = True"

fun up_steps :: "bool \<Rightarrow> bool \<Rightarrow> up_pc \<Rightarrow> nat" where
  "up_steps reading sending UpTop = 1"
| "up_steps reading sending (UpRead _) = (if reading then 5 else 6)"
| "up_steps reading sending (UpGot _ _) = 4"
| "up_steps reading sending (UpSend _ _ _) = (if sending then 2 else 3)"
| "up_steps reading sending (UpRet _) = 0"

fun down_steps :: "bool \<Rightarrow> bool \<Rightarrow> down_pc \<Rightarrow> nat" where
  "down_steps receiving writing DnTop = 1"
| "down_steps receiving writing DnRecv = (if receiving then 5 else 6)"
| "down_steps receiving writing (DnCopy _ _) = 4"
| "down_steps receiving writing (DnWrite _ _) = (if writing then 2 else 3)"
| "down_steps receiving writing (DnRet _) = 0"

fun watch_steps :: "bool \<Rightarrow> watch_pc \<Rightarrow> nat" where
  "watch_steps closing WWait = 3"
| "watch_steps closing WCloseTun = (if closing then 1 else 2)"
| "watch_steps closing WDone = 0"

definition steps_left :: "('g, 'k) system \<Rightarrow> nat" where
  "steps_left \<sigma> = up_steps (in_read \<sigma>) (in_send \<sigma>) (up (pump_of \<sigma>)) +
     down_steps (in_recv \<sigma>) (in_write \<sigma>) (down (pump_of \<sigma>)) + watch_steps (in_close \<sigma>) (watch (pump_of \<sigma>))"

lemma steps_left_bound: "steps_left \<sigma> \<le> 15"
proof -
  have "up_steps (in_read \<sigma>) (in_send \<sigma>) (up (pump_of \<sigma>)) \<le> 6" by (cases "up (pump_of \<sigma>)") simp_all
  moreover have "down_steps (in_recv \<sigma>) (in_write \<sigma>) (down (pump_of \<sigma>)) \<le> 6" by (cases "down (pump_of \<sigma>)") simp_all
  moreover have "watch_steps (in_close \<sigma>) (watch (pump_of \<sigma>)) \<le> 3" by (cases "watch (pump_of \<sigma>)") simp_all
  ultimately show ?thesis by (simp add: steps_left_def)
qed

text \<open>The watcher starts with the mutex not held by it: its flag is set only while it closes the tunnel.\<close>

lemma steps_decrease:
  assumes "ctx_done G (pump_of \<sigma>)" "lock_inv \<sigma>" "sys_fire G K e \<sigma> = Some \<sigma>'" "own_step e"
  shows "steps_left \<sigma>' < steps_left \<sigma>"
  using assms
  by (cases e) (auto simp: steps_left_def lock_inv_def lock_held_def lift_pump_Some up_fire.simps down_fire.simps watch_fire.simps
      pump_upd_defs Let_def getBuf_fields
      split: up_pc.splits down_pc.splits option.splits if_splits prod.splits)

lemma steps_other:
  assumes "sys_fire G K e \<sigma> = Some \<sigma>'" "\<not> own_step e"
  shows "steps_left \<sigma>' = steps_left \<sigma>"
  using assms
  by (cases e) (auto simp: steps_left_def lift_pump_Some split: if_splits prod.splits)

text \<open>What \<^verbatim>\<open>read\<close> documents: it fills at most the buffer it is given.\<close>

definition read_documented :: "'k kernel \<Rightarrow> bool" where
  "read_documented K \<longleftrightarrow> (\<forall>fd n k. length (fst (fst (fd_read K fd n k))) \<le> n)"

lemma File_Read_length:
  assumes "read_documented K" "File_Read K n f k = ((b, err), k')"
  shows "length b \<le> n"
proof -
  have "length (fst (fst (fd_read K (f_fd f) n k))) \<le> n" using assms(1) by (simp add: read_documented_def)
  with assms(2) show ?thesis by (auto simp: File_Read_def split: if_splits prod.splits option.splits)
qed

text \<open>A call on the device that waits for the kernel can go on, or the watcher can close the device.\<close>

lemma device_wakes:
  assumes "flags_inv \<sigma>" "ctx_done G (pump_of \<sigma>)" "\<not> f_closed (d_f (dev_of \<sigma>))"
  shows "sys_fire G K SWatchDev \<sigma> \<noteq> None"
proof -
  have "watch (pump_of \<sigma>) = WWait" using assms(1,3) by (auto simp: flags_inv_def)
  with watch_dev_enabled [of G \<sigma> K] assms(2) show ?thesis by auto
qed

lemma up_can_step:
  assumes "read_documented K" "flags_inv \<sigma>" "ctx_done G (pump_of \<sigma>)" "\<forall>r. up (pump_of \<sigma>) \<noteq> UpRet r" "\<not> lock_held \<sigma>"
  shows "\<exists>e. own_step e \<and> sys_fire G K e \<sigma> \<noteq> None"
proof (cases "up (pump_of \<sigma>)")
  case UpTop
  then have "sys_fire G K (SUpLoop Fresh) \<sigma> \<noteq> None"
    by (simp add: lift_pump_def up_fire.simps getBuf_def alloc_def)
  then show ?thesis by (intro exI [of _ "SUpLoop Fresh"]) simp
next
  case (UpRead a)
  obtain b err k where r: "read_body K (length (heap (pump_of \<sigma>) ! a)) (dev_of \<sigma>) (os_of \<sigma>) = ((b, err), k)"
    by (metis prod.exhaust)
  with File_Read_length [OF assms(1)] have "length b \<le> length (heap (pump_of \<sigma>) ! a)" by (auto simp: read_body_def)
  with UpRead r have "sys_fire G K (if in_read \<sigma> then SReadDo else SReadCheck) \<sigma> \<noteq> None"
    if "f_closed (d_f (dev_of \<sigma>))" using that
    by (auto simp: lift_pump_def up_fire.simps Let_def split: option.splits)
  then have "\<exists>e \<in> {SReadDo, SReadCheck, SWatchDev}. sys_fire G K e \<sigma> \<noteq> None"
    using device_wakes [OF assms(2,3), of K] by (cases "f_closed (d_f (dev_of \<sigma>))") (auto simp del: sys_fire.simps split: if_splits)
  then show ?thesis by force
next
  case (UpGot a n)
  then have "sys_fire G K SDispatch \<sigma> \<noteq> None" by (simp add: lift_pump_def up_fire.simps Let_def split: option.split)
  then show ?thesis by (intro exI [of _ SDispatch]) simp
next
  case (UpSend a n tag)
  with assms(5) have "sys_fire G K SSend \<sigma> \<noteq> None" by (simp add: lift_pump_def up_fire.simps Let_def split: option.split prod.split)
  then show ?thesis by (intro exI [of _ SSend]) simp
qed (use assms(4) in simp)

lemma down_can_step:
  assumes "flags_inv \<sigma>" "ctx_done G (pump_of \<sigma>)" "\<forall>r. down (pump_of \<sigma>) \<noteq> DnRet r" "\<not> lock_held \<sigma>" "\<not> stuck_recv \<sigma>"
  shows "\<exists>e. own_step e \<and> sys_fire G K e \<sigma> \<noteq> None"
proof (cases "down (pump_of \<sigma>)")
  case DnTop
  then have "sys_fire G K SDnLoop \<sigma> \<noteq> None" by (simp add: lift_pump_def down_fire.simps)
  then show ?thesis by (intro exI [of _ SDnLoop]) simp
next
  case DnRecv
  with assms(4,5) have "sys_fire G K (if in_recv \<sigma> then SRecvDo Fresh else SRecvCheck) \<sigma> \<noteq> None"
    by (auto simp: stuck_recv_def lift_pump_def down_fire.simps getBuf_def alloc_def split: option.splits prod.splits)
  then show ?thesis by (intro exI [of _ "if in_recv \<sigma> then SRecvDo Fresh else SRecvCheck"]) simp
next
  case (DnCopy a p)
  then have "sys_fire G K SCopy \<sigma> \<noteq> None" by (simp add: lift_pump_def down_fire.simps)
  then show ?thesis by (intro exI [of _ SCopy]) simp
next
  case (DnWrite a n)
  then have "sys_fire G K (if in_write \<sigma> then SWriteDo else SWriteCheck) \<sigma> \<noteq> None" if "f_closed (d_f (dev_of \<sigma>))"
    using that by (auto simp: lift_pump_def down_fire.simps Let_def split: option.splits prod.splits)
  then have "\<exists>e \<in> {SWriteDo, SWriteCheck, SWatchDev}. sys_fire G K e \<sigma> \<noteq> None"
    using device_wakes [OF assms(1,2), of K] by (cases "f_closed (d_f (dev_of \<sigma>))") (auto simp del: sys_fire.simps split: if_splits)
  then show ?thesis by force
qed (use assms(3) in simp)

text \<open>A call that holds the mutex can go on as soon as the stream accepts bytes.\<close>

lemma writer_can_step:
  assumes "lock_inv \<sigma>" "lock_held \<sigma>" "stream_ready \<sigma>"
  shows "\<exists>e. own_step e \<and> sys_fire G K e \<sigma> \<noteq> None"
proof (cases "in_send \<sigma>")
  case True
  with send_completes [OF assms(1) True assms(3), of G K] show ?thesis by (intro exI [of _ SSendDo]) auto
next
  case False
  with assms have "in_close \<sigma>" "watch (pump_of \<sigma>) = WCloseTun" by (auto simp: lock_held_def lock_inv_def)
  with assms(3) have "sys_fire G K SWatchTunDo \<sigma> \<noteq> None" by (simp add: lift_pump_def watch_fire.simps)
  then show ?thesis by (intro exI [of _ SWatchTunDo]) simp
qed

lemma sys_fire_ctx:
  assumes "errgroup_documented G" "group_ok G (pump_of \<sigma>)" "sys_fire G K e \<sigma> = Some \<sigma>'"
  shows "group_ok G (pump_of \<sigma>') \<and> (ctx_done G (pump_of \<sigma>) \<longrightarrow> ctx_done G (pump_of \<sigma>'))"
  by (rule run_list_inv [OF sys_fire_pump [OF assms(3)], where P = "\<lambda>s. group_ok G s \<and> (ctx_done G (pump_of \<sigma>) \<longrightarrow> ctx_done G s)"])
    (use assms(1,2) in \<open>auto intro: fire_group_ok ctx_done_mono\<close>)

lemma sys_run_group_ok:
  assumes "sys_Run G K p d t k = (Inr \<sigma>0, k2)" "sys_run G K es \<sigma>0 = Some \<sigma>"
  shows "group_ok G (pump_of \<sigma>)"
proof (rule run_list_inv [OF assms(2)])
  show "group_ok G (pump_of \<sigma>0)" using sys_Run_start [OF assms(1)] group_ok_init by metis
  show "group_ok G (pump_of s')" if "group_ok G (pump_of s)" "sys_fire G K e s = Some s'" for e s s'
    by (rule run_list_inv [OF sys_fire_pump [OF that(2)], where P = "group_ok G"]) (use that(1) in \<open>auto intro: fire_group_ok\<close>)
qed

lemma steps_bound:
  assumes "errgroup_documented G" "group_ok G (pump_of \<sigma>)" "ctx_done G (pump_of \<sigma>)" "lock_inv \<sigma>" "sys_run G K fs \<sigma> = Some \<sigma>'"
  shows "length (filter own_step fs) + steps_left \<sigma>' \<le> steps_left \<sigma> \<and> ctx_done G (pump_of \<sigma>')"
  using assms(2-5)
proof (induction fs arbitrary: \<sigma>)
  case (Cons e fs)
  from Cons.prems(4) obtain s where s: "sys_fire G K e \<sigma> = Some s" "sys_run G K fs s = Some \<sigma>'" by (auto split: option.splits)
  have "group_ok G (pump_of s)" "ctx_done G (pump_of s)" using sys_fire_ctx [OF assms(1) Cons.prems(1) s(1)] Cons.prems(2) by auto
  from Cons.IH [OF this lock_inv_step [OF Cons.prems(3) s(1)] s(2)] steps_decrease [OF Cons.prems(2,3) s(1)] steps_other [OF s(1)]
  show ?case by (cases "own_step e") auto
qed simp

lemma host_flags:
  assumes "sys_Run G K p d t k = (Inr \<sigma>0, k2)" "\<not> f_closed (d_f d)" "sys_run G K es \<sigma>0 = Some \<sigma>"
  shows "flags_inv \<sigma>"
proof -
  have "flags_inv \<sigma>0"
    using sys_Run_start [OF assms(1)] sys_Run_watch [OF assms(1)] sys_Run_open [OF assms(1)] assms(2) by (simp add: flags_inv_def)
  then show ?thesis by (rule run_list_inv [OF assms(3)]) (rule flags_inv_step)
qed

text \<open>
  C10: Shutdown of a host that was started on an open device. Once the context is done, in any further
  run, with any interleaving and however the environment behaves, the two directions and the watcher
  together take at most fifteen more steps, checks included. And at every moment \<^verbatim>\<open>Run\<close> has returned, or one
  of them can take its next step, or the outgoing stream does not accept the bytes of the \<^verbatim>\<open>SendFrame\<close> or
  \<^verbatim>\<open>Close\<close> that holds the mutex, or the only thing left is a \<^verbatim>\<open>RecvFrame\<close> that waits for the peer. A
  device call that waits for the kernel is no such case: the watcher's close of the device ends it.
\<close>

theorem host_shutdown:
  assumes "errgroup_documented G" "read_documented K" "sys_Run G K p d t k = (Inr \<sigma>0, k2)" "\<not> f_closed (d_f d)"
    and "sys_run G K es \<sigma>0 = Some \<sigma>" "ctx_done G (pump_of \<sigma>)" "sys_run G K fs \<sigma> = Some \<sigma>'"
  shows "length (filter own_step fs) \<le> 15 \<and>
    (Run_result G (pump_of \<sigma>') \<noteq> None \<or> (\<exists>e. own_step e \<and> sys_fire G K e \<sigma>' \<noteq> None) \<or>
     lock_held \<sigma>' \<and> \<not> stream_ready \<sigma>' \<or>
     (\<exists>r. up (pump_of \<sigma>') = UpRet r \<and> down (pump_of \<sigma>') = DnRecv \<and> in_recv \<sigma>' \<and> in_open \<sigma>' \<and>
        would_block (tn_in (tun_of \<sigma>'))))"
proof -
  note b = steps_bound [OF assms(1) sys_run_group_ok [OF assms(3,5)] assms(6) run_lock_inv [OF assms(3,5)] assms(7)]
  then have "length (filter own_step fs) \<le> 15" using steps_left_bound [of \<sigma>] by linarith
  moreover have run: "sys_run G K (es @ fs) \<sigma>0 = Some \<sigma>'" using assms(5,7) by (simp add: run_list_append)
  note I = host_flags [OF assms(3,4) run] run_lock_inv [OF assms(3) run]
  have "Run_result G (pump_of \<sigma>') \<noteq> None" if "up (pump_of \<sigma>') = UpRet r" "down (pump_of \<sigma>') = DnRet r'" for r r'
    using that by (simp add: Run_result_def)
  ultimately show ?thesis
    using up_can_step [OF assms(2) I(1) conjunct2 [OF b]] down_can_step [OF I(1) conjunct2 [OF b], of K] writer_can_step [OF I(2), of G K]
    unfolding stuck_recv_def by blast
qed

theorem host_shutdown_witness:
  "length (filter own_step [SKernel False False, SWatchDev, SUpLoop Fresh, SWatchTun]) \<le> 15 \<and>
   (\<exists>\<sigma>'. sys_run list_group sample_kernel [SKernel False False, SWatchDev, SUpLoop Fresh, SWatchTun]
        (the (sys_fire list_group sample_kernel SCancel idle_host)) = Some \<sigma>' \<and> Run_result list_group (pump_of \<sigma>') = None \<and>
      (\<exists>e. own_step e \<and> sys_fire list_group sample_kernel e \<sigma>' \<noteq> None))"
proof -
  let ?s = "the (sys_fire list_group sample_kernel SCancel idle_host)"
  let ?fs = "[SKernel False False, SWatchDev, SUpLoop Fresh, SWatchTun]"
  have r: "read_documented sample_kernel" by (simp add: read_documented_def sample_kernel_def)
  have 1: "sys_run list_group sample_kernel [SCancel] idle_host = Some ?s" by (simp add: lift_pump_def)
  have c: "ctx_done list_group (pump_of ?s)" "\<not> f_closed (d_f sample_device)" by code_simp+
  have "case sys_run list_group sample_kernel ?fs ?s of None \<Rightarrow> False
    | Some \<sigma>' \<Rightarrow> Run_result list_group (pump_of \<sigma>') = None \<and> down (pump_of \<sigma>') = DnTop \<and> stream_ready \<sigma>'" by code_simp
  then obtain \<sigma>' where s: "sys_run list_group sample_kernel ?fs ?s = Some \<sigma>'" "Run_result list_group (pump_of \<sigma>') = None"
    "down (pump_of \<sigma>') = DnTop" "stream_ready \<sigma>'" by (simp split: option.splits del: run_list.simps sys_fire.simps)
  from host_shutdown [OF list_group_documented r idle_host_Run c(2) 1 c(1) s(1)] s show ?thesis
    by (simp del: run_list.simps sys_fire.simps)
qed

section \<open>A send that cancellation does not end\<close>

lemma stalled_step:
  assumes "lock_inv \<sigma> \<and> in_send \<sigma> \<and> \<not> stream_ready \<sigma>" "e \<noteq> SFlow True" "sys_fire G K e \<sigma> = Some \<sigma>'"
  shows "lock_inv \<sigma>' \<and> in_send \<sigma>' \<and> \<not> stream_ready \<sigma>'"
  using lock_inv_step [OF _ assms(3)] assms
  by (cases e) (auto simp: lift_pump_Some lock_held_def split: up_pc.splits down_pc.splits option.splits if_splits prod.splits)

text \<open>
  C26: Cancellation does not end a send. When the stream does not accept the bytes of \<^verbatim>\<open>pumpUp\<close>'s
  \<^verbatim>\<open>SendFrame\<close>, then until it does \<^verbatim>\<open>Run\<close> does not return and the tunnel is not closed, whatever else
  happens: the caller cancels, the watcher closes the device, the peer sends or ends its side. The
  watcher's \<^verbatim>\<open>tun.Close\<close> waits for the mutex that \<^verbatim>\<open>SendFrame\<close> holds.
\<close>

theorem cancel_leaves_send_blocked:
  assumes "sys_Run G K p d t k = (Inr \<sigma>0, k2)" "sys_run G K es \<sigma>0 = Some \<sigma>" "in_send \<sigma>" "\<not> stream_ready \<sigma>"
    and "sys_run G K fs \<sigma> = Some \<sigma>'" "SFlow True \<notin> set fs"
  shows "Run_result G (pump_of \<sigma>') = None \<and> \<not> tn_closed (tun_of \<sigma>') \<and> watch (pump_of \<sigma>') \<noteq> WDone \<and>
    (\<exists>a n tag. up (pump_of \<sigma>') = UpSend a n tag)"
proof -
  have start: "lock_inv \<sigma> \<and> in_send \<sigma> \<and> \<not> stream_ready \<sigma>" using run_lock_inv [OF assms(1,2)] assms(3,4) by simp
  have "lock_inv \<sigma>' \<and> in_send \<sigma>' \<and> \<not> stream_ready \<sigma>'"
    by (rule run_list_inv [where P = "\<lambda>\<sigma>. lock_inv \<sigma> \<and> in_send \<sigma> \<and> \<not> stream_ready \<sigma>", OF assms(5) start])
      (use assms(6) stalled_step in metis)
  then show ?thesis by (auto simp: lock_inv_def lock_held_def Run_result_def)
qed

definition small_pump :: pump where
  "small_pump = pump_New \<lparr>BufferOverhead = - 1496\<rparr>"

definition small_host :: "(go_error option list, fd list) system" where
  "small_host = idle_host\<lparr>pump_of := pump_init list_group 4\<rparr>"

lemma small_host_Run:
  "sys_Run list_group sample_kernel small_pump sample_device quiet_tunnel [1] = (Inr small_host, [1])"
  by code_simp

text \<open>The sample host, with a packet in hand that the stream does not accept.\<close>

definition sending_events :: "sys_event list" where
  "sending_events = [SUpLoop Fresh, SReadCheck, SReadDo, SDispatch, SFlow False, SSend]"

definition stalled_host :: "(go_error option list, fd list) system" where
  "stalled_host = the (sys_run list_group sample_kernel sending_events small_host)"

theorem cancel_leaves_send_blocked_witness:
  "\<exists>\<sigma>'. sys_run list_group sample_kernel [SCancel, SWatchDev, SPeerEnd (Sentinel EOF) False] stalled_host = Some \<sigma>' \<and>
     sys_fire list_group sample_kernel SWatchTun \<sigma>' = None \<and> Run_result list_group (pump_of \<sigma>') = None \<and> \<not> tn_closed (tun_of \<sigma>')"
proof -
  let ?fs = "[SCancel, SWatchDev, SPeerEnd (Sentinel EOF) False]"
  have "sys_run list_group sample_kernel sending_events small_host \<noteq> None" by code_simp
  then have run: "sys_run list_group sample_kernel sending_events small_host = Some stalled_host"
    by (simp add: stalled_host_def del: run_list.simps)
  have st: "in_send stalled_host" "\<not> stream_ready stalled_host" by code_simp+
  have "case sys_run list_group sample_kernel ?fs stalled_host of None \<Rightarrow> False
    | Some \<sigma>' \<Rightarrow> sys_fire list_group sample_kernel SWatchTun \<sigma>' = None" by code_simp
  then obtain \<sigma>' where s: "sys_run list_group sample_kernel ?fs stalled_host = Some \<sigma>'" "sys_fire list_group sample_kernel SWatchTun \<sigma>' = None"
    by (simp split: option.splits del: run_list.simps sys_fire.simps)
  from cancel_leaves_send_blocked [OF small_host_Run run st s(1)] s show ?thesis
    by (simp del: run_list.simps sys_fire.simps)
qed

end
