(* ===== verification/Hosts.thy ===== *)
theory Hosts
  imports System_Correct
begin

text \<open>
  Two hosts, connected: what one host's wrapper writes to its stream arrives at the other, in order,
  in pieces of any size and at any time, in both directions. The invariant of a host says what it has
  put on its stream; the invariant of a connection says what the receiver has made of it. Together
  they show that packets cross from kernel to kernel unchanged and in order.
\<close>

section \<open>What a host puts on its stream\<close>

text \<open>
  The frames handed to the tunnel, as a log, against the bytes on the stream: complete records of
  a front part of the log, all of it while the tunnel is open, then at most a part of one record or a
  Close record.
\<close>

definition tx_ok :: "frame list \<Rightarrow> tunnel \<Rightarrow> bool" where
  "tx_ok log t \<longleftrightarrow> list_all wf_frame log \<and> (\<exists>fs gs tail. log = fs @ gs \<and>
     wr_out (tn_out t) = concat (map enc_frame fs) @ tail \<and> (\<not> tn_closed t \<longrightarrow> gs = [] \<and> tail = []) \<and> open_end tail)"

lemma open_end_strict: "wf_frame g \<Longrightarrow> strict_prefix tail (enc_frame g) \<Longrightarrow> open_end tail"
  by (auto simp: open_end_def strict_prefix_def)

lemma open_end_close: "wf_frame g \<Longrightarrow> Close g \<noteq> None \<Longrightarrow> prefix tail (enc_frame g) \<Longrightarrow> open_end tail"
  by (auto simp: open_end_def)

lemma wf_close_frame: "length msg \<le> MaxStringLen \<Longrightarrow> wf_frame (close_frame code msg) \<and> Close (close_frame code msg) \<noteq> None"
  by (auto simp: wf_frame_def close_frame_def wf_close_def bare_frame_def)

lemma open_end_Nil: "open_end []"
  by (rule open_end_close [of "close_frame 0 []"]) (use wf_close_frame [of "[]" 0] in auto)

text \<open>Writing a well-formed frame, whatever the faults of the stream.\<close>

lemma WriteFrame_wf:
  assumes "wf_frame f"
  obtains p where "wr_out (snd (WriteFrame f w)) = wr_out w @ p" "prefix p (enc_frame f)"
    "fst (WriteFrame f w) = None \<Longrightarrow> p = enc_frame f"
  using emits_prefix [OF WriteFrame_emits, of f w] wf_frame_writable [OF assms] by auto

lemma tx_send:
  assumes "tx_ok log t" "wf_frame f" "SendFrame f t = (err, t')"
  shows "tx_ok (log @ [f]) t'"
proof -
  from assms(1) obtain fs gs tail where t: "list_all wf_frame log" "log = fs @ gs"
    "wr_out (tn_out t) = concat (map enc_frame fs) @ tail" "\<not> tn_closed t \<longrightarrow> gs = [] \<and> tail = []" "open_end tail"
    unfolding tx_ok_def by blast
  show ?thesis
  proof (cases "tn_closed t")
    case True
    with assms(2,3) t show ?thesis unfolding tx_ok_def
      by (intro conjI exI [of _ fs] exI [of _ "gs @ [f]"] exI [of _ tail]) (auto simp: SendFrame_def)
  next
    case False
    obtain e w where w: "WriteFrame f (tn_out t) = (e, w)" by fastforce
    obtain p where p: "wr_out w = wr_out (tn_out t) @ p" "prefix p (enc_frame f)" "e = None \<Longrightarrow> p = enc_frame f"
      using WriteFrame_wf [OF assms(2), of "tn_out t"] w by (metis fst_conv snd_conv)
    have t': "tn_out t' = w" "tn_closed t' = (e \<noteq> None)"
      using assms(3) False w by (auto simp: SendFrame_def split: option.splits)
    show ?thesis
    proof (cases "p = enc_frame f")
      case True
      with t t' p False assms(2) show ?thesis unfolding tx_ok_def
        by (intro conjI exI [of _ "fs @ [f]"] exI [of _ "[]"]) (auto simp: open_end_Nil)
    next
      case False2: False
      with p have "strict_prefix p (enc_frame f)" "e \<noteq> None" by (auto simp: strict_prefix_def)
      with t t' p False assms(2) open_end_strict show ?thesis unfolding tx_ok_def
        by (intro conjI exI [of _ fs] exI [of _ "[f]"] exI [of _ p]) auto
    qed
  qed
qed

lemma tx_close:
  assumes "tx_ok log t" "length msg \<le> MaxStringLen"
  shows "tx_ok log (snd (tunnel_Close code msg t))"
proof (cases "tn_closed t")
  case True
  with assms(1) show ?thesis by (simp add: tunnel_Close_def)
next
  case False
  note wf = wf_close_frame [OF assms(2), of code]
  obtain e w where w: "WriteFrame (close_frame code msg) (tn_out t) = (e, w)" by fastforce
  obtain p where p: "wr_out w = wr_out (tn_out t) @ p" "prefix p (enc_frame (close_frame code msg))"
    using WriteFrame_wf [of "close_frame code msg" "tn_out t"] wf w by (metis snd_conv)
  from assms(1) False have "list_all wf_frame log" "wr_out (tn_out t) = concat (map enc_frame log)"
    by (auto simp: tx_ok_def)
  with p w False wf open_end_close show ?thesis unfolding tx_ok_def
    by (intro conjI exI [of _ log] exI [of _ "[]"] exI [of _ p]) (auto simp: tunnel_Close_def)
qed

lemma tx_in: "tn_out t' = tn_out t \<Longrightarrow> tn_closed t' = tn_closed t \<Longrightarrow> tx_ok log t' = tx_ok log t"
  by (simp add: tx_ok_def)

section \<open>The invariant of a host\<close>

definition host_ok :: "nat \<Rightarrow> ('g, 'k) system \<Rightarrow> bool" where
  "host_ok n \<sigma> \<longleftrightarrow> pump_inv (pump_of \<sigma>) \<and> slice_size (pump_of \<sigma>) = n \<and>
     list_all (\<lambda>p. length p \<le> n) (read_log (pump_of \<sigma>)) \<and> tx_ok (send_log (pump_of \<sigma>)) (tun_of \<sigma>)"

lemma fire_send_log:
  assumes "fire G e s = Some s'" "\<And>err. e \<noteq> UpSendRet err"
  shows "send_log s' = send_log s"
  using assms
  by (cases e) (auto simp: up_fire.simps down_fire.simps watch_fire.simps pump_upd_defs Let_def getBuf_fields
      split: if_splits option.splits up_pc.splits down_pc.splits)

lemma fire_UpSendRet:
  "fire G (UpSendRet err) s = Some s' \<Longrightarrow> up s = UpSend a n tag \<Longrightarrow>
   send_log s' = send_log s @ [(bare_frame tag)\<lparr>Packet := Some (load a n s)\<rparr>]"
  by (auto simp: up_fire.simps pump_upd_defs Let_def split: option.splits)

text \<open>The frame a pump is about to send is a well-formed packet frame of at most the slice size.\<close>

lemma sending_frame:
  assumes "pump_inv s" "up s = UpSend a n tag" "list_all (\<lambda>p. length p \<le> m) (read_log s)" "m \<le> 65535"
  shows "wf_frame ((bare_frame tag)\<lparr>Packet := Some (load a n s)\<rparr>)"
proof -
  from assms(1,2) obtain ps where d: "read_log s = ps @ [load a n s]" "0 < n" "n \<le> length (heap s ! a)"
    "tag_dispatch (load a n s ! 0) = Some tag" by (auto simp: pump_inv_def up_data_def)
  have "tag \<in> {TagIPv4, TagIPv6}" using d(4)
    by (auto simp: tag_dispatch_def tagIPv4_def tagIPv6_def tag_simps split: if_splits)
  moreover have "load a n s \<noteq> []" using d(2,3) by (auto simp: load_def)
  moreover have "length (load a n s) \<le> MaxIPPacket" using d(1) assms(3,4) by (simp add: MaxIPPacket_def)
  ultimately show ?thesis by (rule wf_packet)
qed

lemma host_pump_step:
  assumes "pump_inv s" "list_all (\<lambda>p. length p \<le> slice_size s) (read_log s)" "fire G e s = Some s'" "fits (slice_size s) e"
  shows "pump_inv s' \<and> slice_size s' = slice_size s \<and> list_all (\<lambda>p. length p \<le> slice_size s) (read_log s')"
  using fire_inv [OF assms(1,3,4)] fire_slice_size [OF assms(3)] fire_read_log [OF assms(3,1,2)] by simp

lemma lift_host_ok:
  assumes "host_ok n \<sigma>" "lift_pump G e \<tau> = Some \<sigma>'" "pump_of \<tau> = pump_of \<sigma>" "fits n e"
    "\<And>err. e \<noteq> UpSendRet err" "tx_ok (send_log (pump_of \<sigma>)) (tun_of \<tau>)"
  shows "host_ok n \<sigma>'"
proof -
  from assms(2,3) obtain s where s: "fire G e (pump_of \<sigma>) = Some s" "\<sigma>' = \<tau>\<lparr>pump_of := s\<rparr>" by (auto simp: lift_pump_Some)
  from assms(1) have "pump_inv (pump_of \<sigma>)" "list_all (\<lambda>p. length p \<le> slice_size (pump_of \<sigma>)) (read_log (pump_of \<sigma>))"
    "slice_size (pump_of \<sigma>) = n" by (simp_all add: host_ok_def)
  with host_pump_step [OF this(1,2) s(1)] fire_send_log [OF s(1) assms(5)] assms(4,6) s(2) show ?thesis
    by (simp add: host_ok_def)
qed

lemma host_ok_tun: "host_ok n \<sigma> \<Longrightarrow> pump_of \<tau> = pump_of \<sigma> \<Longrightarrow> tn_out (tun_of \<tau>) = tn_out (tun_of \<sigma>) \<Longrightarrow>
  tn_closed (tun_of \<tau>) = tn_closed (tun_of \<sigma>) \<Longrightarrow> host_ok n \<tau>"
  using tx_in [of "tun_of \<tau>" "tun_of \<sigma>"] by (simp add: host_ok_def)

lemma recv_read_out: "recv_read t = (r, t') \<Longrightarrow> tn_out t' = tn_out t \<and> tn_closed t' = tn_closed t"
  by (auto simp: recv_read_def split: prod.splits)

text \<open>A \<^verbatim>\<open>SendFrame\<close> or the watcher's \<^verbatim>\<open>Close\<close> takes the mutex and waits, or is carried out.\<close>

lemma send_step:
  assumes "sys_fire G K e \<sigma> = Some \<sigma>'" "e = SSend \<or> e = SSendDo" "up (pump_of \<sigma>) = UpSend a m tag"
    and "SendFrame ((bare_frame tag)\<lparr>Packet := Some (load a m (pump_of \<sigma>))\<rparr>) (tun_of \<sigma>) = (err, t)"
  shows "\<sigma>' = \<sigma>\<lparr>in_send := True\<rparr> \<or> lift_pump G (UpSendRet err) (\<sigma>\<lparr>tun_of := t\<rparr>) = Some \<sigma>' \<or>
    lift_pump G (UpSendRet err) (\<sigma>\<lparr>tun_of := t, in_send := False\<rparr>) = Some \<sigma>'"
  using assms(2)
proof
  assume "e = SSend"
  with assms(1,3,4) show ?thesis by (cases "tn_closed (tun_of \<sigma>)") (simp_all split: if_splits)
next
  assume "e = SSendDo"
  with assms(1,3,4) show ?thesis by (simp split: if_splits)
qed

lemma close_step:
  assumes "sys_fire G K e \<sigma> = Some \<sigma>'" "e = SWatchTun \<or> e = SWatchTunDo"
  shows "\<sigma>' = \<sigma>\<lparr>in_close := True\<rparr> \<or>
    lift_pump G WatchTun (\<sigma>\<lparr>tun_of := snd (tunnel_Close 0 ''pump: ctx cancel'' (tun_of \<sigma>))\<rparr>) = Some \<sigma>' \<or>
    lift_pump G WatchTun (\<sigma>\<lparr>tun_of := snd (tunnel_Close 0 ''pump: ctx cancel'' (tun_of \<sigma>)), in_close := False\<rparr>) = Some \<sigma>'"
  using assms(2)
proof
  assume "e = SWatchTun"
  with assms(1) show ?thesis by (simp split: if_splits)
next
  assume "e = SWatchTunDo"
  with assms(1) show ?thesis by (simp split: if_splits)
qed

lemma host_ok_send:
  assumes "host_ok n \<sigma>" "sys_fire G K e \<sigma> = Some \<sigma>'" "n \<le> 65535" "e = SSend \<or> e = SSendDo"
  shows "host_ok n \<sigma>'"
proof -
  let ?s = "pump_of \<sigma>"
  from assms(2,4) obtain a m tag where up: "up ?s = UpSend a m tag" by (auto split: up_pc.splits)
  let ?f = "(bare_frame tag)\<lparr>Packet := Some (load a m ?s)\<rparr>"
  obtain err t where f: "SendFrame ?f (tun_of \<sigma>) = (err, t)" by fastforce
  consider (waits) "\<sigma>' = \<sigma>\<lparr>in_send := True\<rparr>"
    | (sent) \<tau> where "lift_pump G (UpSendRet err) \<tau> = Some \<sigma>'" "pump_of \<tau> = ?s" "tun_of \<tau> = t"
    using send_step [OF assms(2,4) up f] by fastforce
  then show ?thesis
  proof cases
    case waits
    with assms(1) show ?thesis by (simp add: host_ok_def)
  next
    case sent
    then obtain s where s: "fire G (UpSendRet err) ?s = Some s" "pump_of \<sigma>' = s" "tun_of \<sigma>' = t"
      by (auto simp: lift_pump_Some simp del: fire.simps)
    from assms(1) have h: "pump_inv ?s" "list_all (\<lambda>p. length p \<le> slice_size ?s) (read_log ?s)" "slice_size ?s = n"
      "tx_ok (send_log ?s) (tun_of \<sigma>)" by (simp_all add: host_ok_def)
    have "wf_frame ?f" by (rule sending_frame [OF h(1) up h(2)]) (use h(3) assms(3) in simp)
    from tx_send [OF h(4) this f] fire_UpSendRet [OF s(1) up] have "tx_ok (send_log s) t" by simp
    with host_pump_step [OF h(1,2) s(1)] h(3) s show ?thesis by (simp add: host_ok_def)
  qed
qed

text \<open>The watcher's \<^verbatim>\<open>Close\<close> of the tunnel, at once or when it holds the mutex.\<close>

lemma host_ok_close:
  assumes "host_ok n \<sigma>" "sys_fire G K e \<sigma> = Some \<sigma>'" "e = SWatchTun \<or> e = SWatchTunDo"
  shows "host_ok n \<sigma>'"
proof -
  let ?t = "snd (tunnel_Close 0 ''pump: ctx cancel'' (tun_of \<sigma>))"
  have tx: "tx_ok (send_log (pump_of \<sigma>)) ?t"
    by (rule tx_close) (use assms(1) in \<open>simp_all add: host_ok_def MaxStringLen_def\<close>)
  consider (waits) "\<sigma>' = \<sigma>\<lparr>in_close := True\<rparr>"
    | (closed) \<tau> where "lift_pump G WatchTun \<tau> = Some \<sigma>'" "pump_of \<tau> = pump_of \<sigma>" "tun_of \<tau> = ?t"
    using close_step [OF assms(2,3)] by fastforce
  then show ?thesis
  proof cases
    case waits
    with assms(1) show ?thesis by (simp add: host_ok_def)
  next
    case closed
    with lift_host_ok [OF assms(1) closed(1,2)] tx show ?thesis by simp
  qed
qed

lemma host_ok_step:
  assumes h: "host_ok n \<sigma>" and st: "sys_fire G K e \<sigma> = Some \<sigma>'" and n: "n \<le> 65535"
    and fit: "list_all (fits n) (pump_events G K e \<sigma>)"
  shows "host_ok n \<sigma>'"
proof -
  have tx: "tx_ok (send_log (pump_of \<sigma>)) (tun_of \<sigma>)" using h by (simp add: host_ok_def)
  note L = lift_host_ok [OF h]
  show ?thesis
  proof (cases e)
    case SSend
    with host_ok_send [OF h st n] show ?thesis by blast
  next
    case SSendDo
    with host_ok_send [OF h st n] show ?thesis by blast
  next
    case SWatchTun
    with host_ok_close [OF h st] show ?thesis by blast
  next
    case SWatchTunDo
    with host_ok_close [OF h st] show ?thesis by blast
  next
    case (SRecvDo ch)
    with st obtain fr err t where r: "recv_read (tun_of \<sigma>) = ((fr, err), t)"
      "lift_pump G (DnRecvRet fr err ch) (\<sigma>\<lparr>tun_of := t, in_recv := False\<rparr>) = Some \<sigma>'"
      by (auto split: if_splits prod.splits)
    from fit SRecvDo r(1) have "fits n (DnRecvRet fr err ch)" by simp
    with L [OF r(2)] tx tx_in [of t "tun_of \<sigma>"] recv_read_out [OF r(1)] show ?thesis by simp
  qed (use st tx in \<open>auto intro: L host_ok_tun [OF h]
        split: up_pc.splits down_pc.splits option.splits if_splits prod.splits\<close>)
qed

section \<open>What a receiver makes of a stream\<close>

definition payload :: "frame \<Rightarrow> bytes list" where
  "payload f = (case Packet f of None \<Rightarrow> [] | Some p \<Rightarrow> [p])"

text \<open>
  \<open>rx_ok w got \<sigma>\<close>: of the stream \<open>w\<close>, \<open>got\<close> bytes have arrived at host \<open>\<sigma>\<close>; it has read a sequence of
  records off the front, whose packets are its log of received packets, and as long as
  \<^verbatim>\<open>pumpDown\<close> runs, the bytes that arrived and were not read are in its reader.
\<close>

definition rx_ok :: "bytes \<Rightarrow> nat \<Rightarrow> ('g, 'k) system \<Rightarrow> bool" where
  "rx_ok w got \<sigma> \<longleftrightarrow> got \<le> length w \<and> (\<exists>rs rest. list_all wf_frame rs \<and> w = concat (map enc_frame rs) @ rest \<and>
     recv_log (pump_of \<sigma>) = concat (map payload rs) \<and>
     ((\<forall>r. down (pump_of \<sigma>) \<noteq> DnRet r) \<longrightarrow> take got w = concat (map enc_frame rs) @ rd_bytes (tn_in (tun_of \<sigma>))))"

lemma rx_grow: "rx_ok w got \<sigma> \<Longrightarrow> rx_ok (w @ w') got \<sigma>"
  unfolding rx_ok_def by (auto simp: exI [of _ "_ @ w'"])

lemma fire_recv_log:
  assumes "fire G e s = Some s'"
  shows "case e of DnRecvRet fr err ch \<Rightarrow>
       (case (fr, err) of
          (Some f, None) \<Rightarrow> if Close f = None then recv_log s' = recv_log s @ payload f \<and> (\<forall>r. down s' \<noteq> DnRet r)
            else recv_log s' = recv_log s \<and> (\<exists>r. down s' = DnRet r)
        | _ \<Rightarrow> recv_log s' = recv_log s \<and> (\<exists>r. down s' = DnRet r))
    | _ \<Rightarrow> recv_log s' = recv_log s"
  using assms
  by (cases e) (auto simp: up_fire.simps down_fire.simps watch_fire.simps pump_upd_defs Let_def getBuf_fields payload_def
      split: if_splits option.splits up_pc.splits down_pc.splits)

lemma fire_ret_stays: "fire G e s = Some s' \<Longrightarrow> down s = DnRet r \<Longrightarrow> down s' = DnRet r"
  by (erule fire_cases) (auto dest: up_fire_result down_fire_result)

text \<open>Events other than a completed receive and an arrival.\<close>

lemma rx_other:
  assumes "sys_fire G K e \<sigma> = Some \<sigma>'" "\<not> from_peer e" "\<And>ch. e \<noteq> SRecvDo ch"
  shows "recv_log (pump_of \<sigma>') = recv_log (pump_of \<sigma>) \<and> tn_in (tun_of \<sigma>') = tn_in (tun_of \<sigma>)"
  using assms fire_recv_log [of G]
  by (cases e) (fastforce simp del: fire.simps simp: lift_pump_Some tunnel_in_kept
      split: up_pc.splits down_pc.splits option.splits if_splits prod.splits)+

lemma sys_ret_stays:
  assumes "sys_fire G K e \<sigma> = Some \<sigma>'" "down (pump_of \<sigma>) = DnRet r"
  shows "down (pump_of \<sigma>') = DnRet r"
  using sys_fire_pump [OF assms(1)] assms(2)
  by (rule run_list_inv [where P = "\<lambda>s. down s = DnRet r"]) (rule fire_ret_stays)


lemma ReadFrame_cases:
  obtains (frame) f r' where "ReadFrame r = ((Some f, None), r')" "wf_frame f" "rd_bytes r = enc_frame f @ rd_bytes r'"
  | (error) fo e r' where "ReadFrame r = ((fo, Some e), r')"
proof (cases "frame_rd r")
  case (Pair x r')
  show thesis
  proof (cases x)
    case (Inl e)
    with Pair error ReadFrame_err [of r e r'] show thesis by auto
  next
    case (Inr f)
    with Pair frame [of f r'] ReadFrame_ok [of r f r'] frame_fmt.decode_canonical [of r f r'] show thesis by simp
  qed
qed

lemma rx_recv:
  assumes rx: "rx_ok w got \<sigma>" and st: "sys_fire G K (SRecvDo ch) \<sigma> = Some \<sigma>'"
  shows "rx_ok w got \<sigma>'"
proof -
  let ?r = "tn_in (tun_of \<sigma>)"
  from st have dn: "down (pump_of \<sigma>) = DnRecv" by (auto split: if_splits)
  with rx obtain rs rest where g: "got \<le> length w" "list_all wf_frame rs" "w = concat (map enc_frame rs) @ rest"
    "recv_log (pump_of \<sigma>) = concat (map payload rs)" "take got w = concat (map enc_frame rs) @ rd_bytes ?r"
    by (auto simp: rx_ok_def)
  show ?thesis
  proof (cases rule: ReadFrame_cases [of ?r])
    case (frame f r')
    with st obtain s where s: "fire G (DnRecvRet (Some f) None ch) (pump_of \<sigma>) = Some s" "pump_of \<sigma>' = s"
      "tun_of \<sigma>' = (tun_of \<sigma>)\<lparr>tn_in := r'\<rparr>"
      by (auto simp: recv_read_def lift_pump_Some simp del: fire.simps split: if_splits)
    have w: "w = concat (map enc_frame (rs @ [f])) @ rd_bytes r' @ drop got w"
      using append_take_drop_id [of got w] g(5) frame(3) by simp
    have t: "take got w = concat (map enc_frame (rs @ [f])) @ rd_bytes r'" using g(5) frame(3) by simp
    have "Close f \<noteq> None \<Longrightarrow> payload f = []"
      using frame(2) by (cases rule: wf_frame_cases) (auto simp: payload_def bare_frame_def)
    with fire_recv_log [OF s(1)] have "recv_log s = recv_log (pump_of \<sigma>) @ payload f" by (auto split: if_splits)
    with s g(1,2,4) w t frame(2) show ?thesis unfolding rx_ok_def
      by (intro conjI exI [of _ "rs @ [f]"] exI [of _ "rd_bytes r' @ drop got w"]) auto
  next
    case (error fo e r')
    with st obtain s where s: "fire G (DnRecvRet fo (Some e) ch) (pump_of \<sigma>) = Some s" "pump_of \<sigma>' = s"
      by (auto simp: recv_read_def lift_pump_Some simp del: fire.simps split: if_splits)
    with fire_recv_log [OF s(1)] g(1-4) show ?thesis unfolding rx_ok_def by (auto split: option.splits)
  qed
qed

lemma rx_step:
  assumes "rx_ok w got \<sigma>" "sys_fire G K e \<sigma> = Some \<sigma>'" "\<not> from_peer e"
  shows "rx_ok w got \<sigma>'"
proof (cases "\<exists>ch. e = SRecvDo ch")
  case True
  with assms rx_recv show ?thesis by blast
next
  case False
  with rx_other [OF assms(2,3)] sys_ret_stays [OF assms(2)] assms(1) show ?thesis
    unfolding rx_ok_def by metis
qed

lemma rx_arrive:
  assumes "rx_ok w got \<sigma>" "sys_fire G K (SArrive bs) \<sigma> = Some \<sigma>'" "bs = take m (drop got w)"
  shows "rx_ok w (got + length bs) \<sigma>'"
proof -
  from assms(2) have s: "pump_of \<sigma>' = pump_of \<sigma>" "rd_bytes (tn_in (tun_of \<sigma>')) = rd_bytes (tn_in (tun_of \<sigma>)) @ bs"
    by (auto simp: rd_bytes_def split: if_splits)
  have "take (got + length bs) w = take got w @ bs" using assms(3) by (auto simp: take_add min_def)
  moreover have "got + length bs \<le> length w" using assms(1,3) by (auto simp: rx_ok_def)
  ultimately show ?thesis using assms(1) s unfolding rx_ok_def by auto
qed

lemma rx_end: "rx_ok w got \<sigma> \<Longrightarrow> sys_fire G K (SPeerEnd e b) \<sigma> = Some \<sigma>' \<Longrightarrow> rx_ok w got \<sigma>'"
  by (auto simp: rx_ok_def rd_bytes_def split: if_splits)

section \<open>From sender to receiver\<close>

lemma payload_packet_frame [simp]: "payload (packet_frame p) = [p]"
  by (simp add: payload_def packet_frame_def)

lemma payload_packet_frames: "concat (map payload (map packet_frame ps)) = ps"
  by (induction ps) auto

lemma host_stream:
  assumes "host_ok n \<sigma>"
  obtains fs gs tail ps qs where "wr_out (tn_out (tun_of \<sigma>)) = concat (map enc_frame fs) @ tail" "list_all wf_frame fs"
    "open_end tail" "fs @ gs = map packet_frame ps" "\<not> tn_closed (tun_of \<sigma>) \<longrightarrow> gs = [] \<and> tail = []"
    "read_log (pump_of \<sigma>) = ps @ qs" "length qs \<le> 1"
proof -
  from assms obtain fs gs tail where t: "list_all wf_frame (send_log (pump_of \<sigma>))" "send_log (pump_of \<sigma>) = fs @ gs"
     "wr_out (tn_out (tun_of \<sigma>)) = concat (map enc_frame fs) @ tail" "\<not> tn_closed (tun_of \<sigma>) \<longrightarrow> gs = [] \<and> tail = []" "open_end tail"
    unfolding host_ok_def tx_ok_def by blast
  have "up_data (pump_of \<sigma>)" using assms by (simp add: host_ok_def pump_inv_def)
  then obtain ps qs where "send_log (pump_of \<sigma>) = map packet_frame ps" "read_log (pump_of \<sigma>) = ps @ qs" "length qs \<le> 1"
    by (cases "up (pump_of \<sigma>)") (auto simp: up_data_def)
  with t that [of fs tail gs ps qs] show ?thesis by simp
qed

lemma wf_close_payload: "wf_frame g \<Longrightarrow> Close g \<noteq> None \<Longrightarrow> payload g = []"
  by (cases rule: wf_frame_cases, assumption) (auto simp: payload_def bare_frame_def)

text \<open>The packets a receiver has taken off the stream are packets the sender read, in order.\<close>

lemma received_prefix:
  assumes "host_ok n \<sigma>" "rx_ok (wr_out (tn_out (tun_of \<sigma>))) got \<tau>"
  shows "prefix (recv_log (pump_of \<tau>)) (read_log (pump_of \<sigma>))"
proof -
  obtain fs gs tail ps qs where h: "wr_out (tn_out (tun_of \<sigma>)) = concat (map enc_frame fs) @ tail" "list_all wf_frame fs"
    "open_end tail" "fs @ gs = map packet_frame ps" "read_log (pump_of \<sigma>) = ps @ qs" using host_stream [OF assms(1)] by metis
  from assms(2) obtain rs rest where r: "list_all wf_frame rs" "wr_out (tn_out (tun_of \<sigma>)) = concat (map enc_frame rs) @ rest"
    "recv_log (pump_of \<tau>) = concat (map payload rs)" by (auto simp: rx_ok_def)
  have "prefix rs fs \<or> (\<exists>g. rs = fs @ [g] \<and> Close g \<noteq> None)"
    by (rule records_prefix [OF r(1) h(2,3), of rest]) (use h(1) r(2) in simp)
  then have "prefix (concat (map payload rs)) (concat (map payload fs))"
    using r(1) wf_close_payload by (fastforce simp: prefix_def)
  moreover have "concat (map payload fs) @ concat (map payload gs) = ps"
    using arg_cong [OF h(4), of "\<lambda>fs. concat (map payload fs)"] payload_packet_frames [of ps] by simp
  ultimately show ?thesis using r(3) h(5) by (metis append_assoc prefixI prefix_order.trans)
qed

lemma written_prefix: "host_ok n \<sigma> \<Longrightarrow> prefix (write_log (pump_of \<sigma>)) (recv_log (pump_of \<sigma>))"
  by (cases "down (pump_of \<sigma>)") (auto simp: host_ok_def pump_inv_def down_data_def)

lemma recv_fits:
  assumes "sys_fire G K e \<sigma> = Some \<sigma>'" "list_all (\<lambda>p. length p \<le> n) (recv_log (pump_of \<sigma>'))"
  shows "list_all (fits n) (pump_events G K e \<sigma>)"
proof (cases "\<exists>ch. e = SRecvDo ch")
  case True
  then obtain ch where e: "e = SRecvDo ch" ..
  show ?thesis
  proof (cases rule: ReadFrame_cases [of "tn_in (tun_of \<sigma>)"])
    case (frame f r')
    with assms(1) e have "fire G (DnRecvRet (Some f) None ch) (pump_of \<sigma>) = Some (pump_of \<sigma>')"
      by (auto simp: recv_read_def lift_pump_Some simp del: fire.simps split: if_splits)
    from fire_recv_log [OF this] assms(2) wf_close_payload [OF frame(2)]
    have "list_all (\<lambda>p. length p \<le> n) (payload f)" by (auto split: if_splits)
    with frame e show ?thesis by (auto simp: recv_read_def payload_def split: option.splits)
  next
    case (error fo e' r')
    with e show ?thesis by (simp add: recv_read_def)
  qed
next
  case False
  then show ?thesis by (cases e) (auto split: option.splits up_pc.splits down_pc.splits prod.splits)
qed

lemma sys_out_grows:
  assumes "sys_fire G K e \<sigma> = Some \<sigma>'"
  shows "\<exists>new. wr_out (tn_out (tun_of \<sigma>')) = wr_out (tn_out (tun_of \<sigma>)) @ new"
proof -
  have send: "SendFrame f t = (err, t') \<Longrightarrow> \<exists>new. wr_out (tn_out t') = wr_out (tn_out t) @ new" for f t err t'
    using WriteFrame_appends [of f "tn_out t"] by (auto simp: SendFrame_def split: if_splits prod.splits option.splits)
  have close: "\<exists>new. wr_out (tn_out (snd (tunnel_Close code msg t))) = wr_out (tn_out t) @ new" for code msg t
    using WriteFrame_appends [of "close_frame code msg" "tn_out t"] by (auto simp: tunnel_Close_def split: prod.splits)
  show ?thesis using assms
    by (cases e) (auto simp: lift_pump_Some close recv_read_def simp del: fire.simps dest!: send
        split: up_pc.splits down_pc.splits option.splits if_splits prod.splits)
qed

section \<open>Two hosts\<close>

record ('g, 'k, 'h, 'l) joint =
  left_host :: "('g, 'k) system"
  right_host :: "('h, 'l) system"
  to_right :: nat
  to_left :: nat

datatype joint_event = JLeft sys_event | JRight sys_event | JToRight nat | JToLeft nat

abbreviation stream_of :: "('g, 'k) system \<Rightarrow> bytes" where
  "stream_of \<sigma> \<equiv> wr_out (tn_out (tun_of \<sigma>))"

fun is_arrival :: "sys_event \<Rightarrow> bool" where
  "is_arrival (SArrive _) = True"
| "is_arrival _ = False"

fun joint_step :: "'g errgroup \<Rightarrow> 'k kernel \<Rightarrow> 'h errgroup \<Rightarrow> 'l kernel \<Rightarrow> joint_event
    \<Rightarrow> ('g, 'k, 'h, 'l) joint \<Rightarrow> ('g, 'k, 'h, 'l) joint option" where
  "joint_step G K H L (JLeft e) j =
     (if is_arrival e then None else map_option (\<lambda>\<sigma>. j\<lparr>left_host := \<sigma>\<rparr>) (sys_fire G K e (left_host j)))"
| "joint_step G K H L (JRight e) j =
     (if is_arrival e then None else map_option (\<lambda>\<sigma>. j\<lparr>right_host := \<sigma>\<rparr>) (sys_fire H L e (right_host j)))"
| "joint_step G K H L (JToRight m) j =
     (let bs = take m (drop (to_right j) (stream_of (left_host j))) in
      map_option (\<lambda>\<sigma>. j\<lparr>right_host := \<sigma>, to_right := to_right j + length bs\<rparr>) (sys_fire H L (SArrive bs) (right_host j)))"
| "joint_step G K H L (JToLeft m) j =
     (let bs = take m (drop (to_left j) (stream_of (right_host j))) in
      map_option (\<lambda>\<sigma>. j\<lparr>left_host := \<sigma>, to_left := to_left j + length bs\<rparr>) (sys_fire G K (SArrive bs) (left_host j)))"

definition joint_inv :: "nat \<Rightarrow> nat \<Rightarrow> ('g, 'k, 'h, 'l) joint \<Rightarrow> bool" where
  "joint_inv n m j \<longleftrightarrow> host_ok n (left_host j) \<and> host_ok m (right_host j) \<and>
     rx_ok (stream_of (left_host j)) (to_right j) (right_host j) \<and> rx_ok (stream_of (right_host j)) (to_left j) (left_host j)"

text \<open>The packets each host has read fit the buffers of the other.\<close>

definition fit_each :: "nat \<Rightarrow> nat \<Rightarrow> ('g, 'k, 'h, 'l) joint \<Rightarrow> bool" where
  "fit_each n m j \<longleftrightarrow> list_all (\<lambda>p. length p \<le> m) (read_log (pump_of (left_host j))) \<and>
     list_all (\<lambda>p. length p \<le> n) (read_log (pump_of (right_host j)))"

lemma fire_read_grows:
  assumes "fire G e s = Some s'"
  shows "prefix (read_log s) (read_log s')"
  using assms
  by (cases e) (auto simp: up_fire.simps down_fire.simps watch_fire.simps pump_upd_defs Let_def getBuf_fields
      split: if_splits option.splits up_pc.splits down_pc.splits)

lemma sys_read_grows:
  assumes "sys_fire G K e \<sigma> = Some \<sigma>'"
  shows "prefix (read_log (pump_of \<sigma>)) (read_log (pump_of \<sigma>'))"
  by (rule run_list_inv [OF sys_fire_pump [OF assms]]) (auto dest: fire_read_grows intro: prefix_order.trans)

lemma sys_read_fit:
  "sys_fire G K e \<sigma> = Some \<sigma>' \<Longrightarrow> list_all P (read_log (pump_of \<sigma>')) \<Longrightarrow> list_all P (read_log (pump_of \<sigma>))"
  by (drule sys_read_grows) (auto simp: prefix_def)

lemma fit_each_back:
  assumes "joint_step G K H L e j = Some j'" "fit_each n m j'"
  shows "fit_each n m j"
  using assms
  by (cases e) (auto simp: fit_each_def Let_def simp del: sys_fire.simps dest: sys_read_fit split: if_splits)

lemma fit_each_same: "joint_inv n n j \<Longrightarrow> fit_each n n j"
  by (auto simp: joint_inv_def fit_each_def host_ok_def)

text \<open>A step of one host, seen from both ends.\<close>

lemma half_step:
  assumes h: "host_ok n \<sigma>" "host_ok m \<tau>" and rx: "rx_ok (stream_of \<tau>) got \<sigma>" "rx_ok (stream_of \<sigma>) got' \<tau>"
    and st: "sys_fire G K e \<sigma> = Some \<sigma>'" "\<not> is_arrival e" and n: "n \<le> 65535"
    and fit: "list_all (\<lambda>p. length p \<le> n) (read_log (pump_of \<tau>))"
  shows "host_ok n \<sigma>' \<and> rx_ok (stream_of \<tau>) got \<sigma>' \<and> rx_ok (stream_of \<sigma>') got' \<tau>"
proof -
  have 1: "rx_ok (stream_of \<tau>) got \<sigma>'" using rx_step [OF rx(1) st(1)] rx_end [OF rx(1)] st by (cases e) auto
  have "list_all (\<lambda>p. length p \<le> n) (recv_log (pump_of \<sigma>'))"
    using received_prefix [OF h(2) 1] fit by (auto simp: prefix_def)
  from host_ok_step [OF h(1) st(1) n recv_fits [OF st(1) this]] have 2: "host_ok n \<sigma>'" .
  from sys_out_grows [OF st(1)] rx_grow [OF rx(2)] have "rx_ok (stream_of \<sigma>') got' \<tau>" by auto
  with 1 2 show ?thesis by blast
qed

lemma half_arrive:
  assumes "host_ok n \<tau>" "rx_ok w got \<tau>" "sys_fire G K (SArrive bs) \<tau> = Some \<tau>'" "bs = take m (drop got w)" "n \<le> 65535"
  shows "host_ok n \<tau>' \<and> rx_ok w (got + length bs) \<tau>' \<and> stream_of \<tau>' = stream_of \<tau>"
  using host_ok_step [OF assms(1,3,5)] rx_arrive [OF assms(2,3,4)] assms(3) by (auto split: if_splits)

lemma joint_inv_step:
  assumes "joint_inv n m j" "fit_each n m j" "joint_step G K H L e j = Some j'" "n \<le> 65535" "m \<le> 65535"
  shows "joint_inv n m j'"
proof (cases e)
  case (JLeft x)
  with assms half_step [of n "left_host j" m "right_host j" "to_left j" "to_right j" G K x] show ?thesis
    by (auto simp: joint_inv_def fit_each_def split: if_splits)
next
  case (JRight x)
  with assms half_step [of m "right_host j" n "left_host j" "to_right j" "to_left j" H L x] show ?thesis
    by (auto simp: joint_inv_def fit_each_def split: if_splits)
next
  case (JToRight c)
  with assms half_arrive [of m "right_host j" "stream_of (left_host j)" "to_right j" H L] show ?thesis
    by (auto simp: joint_inv_def Let_def simp del: sys_fire.simps)
next
  case (JToLeft c)
  with assms half_arrive [of n "left_host j" "stream_of (right_host j)" "to_left j" G K] show ?thesis
    by (auto simp: joint_inv_def Let_def simp del: sys_fire.simps)
qed

text \<open>A host that has just started, on a fresh stream, satisfies its invariant.\<close>

lemma started_ok:
  assumes "sys_Run G K p d (Wrap rd w) k = (Inr \<sigma>, k')" "wr_out w = []" "rd_chunks rd = []"
  shows "host_ok (slice_size (pump_of \<sigma>)) \<sigma> \<and> stream_of \<sigma> = [] \<and> rx_ok [] 0 \<sigma>"
proof -
  define n where "n = slice_size (pump_of \<sigma>)"
  have s: "pump_of \<sigma> = pump_init G n" "tun_of \<sigma> = Wrap rd w" using sys_Run_start [OF assms(1)] by (simp_all add: n_def)
  have "tx_ok [] (Wrap rd w)" using assms(2) by (simp add: tx_ok_def Wrap_def open_end_Nil)
  with s have "host_ok n \<sigma>" using pump_inv_init [of G n] by (simp add: host_ok_def pump_init_def)
  moreover have "rx_ok [] 0 \<sigma>" unfolding rx_ok_def using s assms(3)
    by (intro conjI exI [of _ "[]"]) (auto simp: pump_init_def Wrap_def rd_bytes_def)
  ultimately show ?thesis unfolding n_def [symmetric] using s(2) assms(2) by (simp add: Wrap_def)
qed

lemma joint_run_inv:
  assumes "sys_Run G K p d (Wrap rd w) k = (Inr \<sigma>, k1)" "wr_out w = []" "rd_chunks rd = []"
    and "sys_Run H L q e (Wrap rd' w') l = (Inr \<tau>, l1)" "wr_out w' = []" "rd_chunks rd' = []"
    and "slice_size (pump_of \<sigma>) = n" "slice_size (pump_of \<tau>) = m" "n \<le> 65535" "m \<le> 65535"
    and "run_list (joint_step G K H L) es \<lparr>left_host = \<sigma>, right_host = \<tau>, to_right = 0, to_left = 0\<rparr> = Some j"
    and "n = m \<or> fit_each n m j"
  shows "joint_inv n m j"
proof -
  have start: "joint_inv n m \<lparr>left_host = \<sigma>, right_host = \<tau>, to_right = 0, to_left = 0\<rparr>"
    using started_ok [OF assms(1-3)] started_ok [OF assms(4-6)] assms(7,8) by (simp add: joint_inv_def)
  show ?thesis
  proof (cases "n = m")
    case True
    show ?thesis
      by (rule run_list_inv [where P = "joint_inv n m", OF assms(11) start]) (use joint_inv_step [OF _ _ _ assms(9,10)] fit_each_same True in blast)
  next
    case False
    with assms(12) have "fit_each n m j" by simp
    then show ?thesis
      by (rule run_list_inv_back [where P = "joint_inv n m", OF assms(11) start])
        (fact fit_each_back, rule joint_inv_step [OF _ _ _ assms(9,10)])
  qed
qed

text \<open>
  C1: From kernel to kernel. Two hosts run the pump on their devices, with buffers of the same size,
  or of different sizes when the packets each host reads fit the buffers of the other, in both cases of
  at most 65535 bytes, and are connected by a stream in each direction that delivers bytes in order, in pieces of any size
  and with any delay, and may end or fail at any time; writes may fail after any number of bytes. In
  every run, whatever the interleaving of all goroutines on both hosts, the packets one host hands to
  its kernel are the first packets the other host read from its kernel, unchanged and in order, in both
  directions.
\<close>

theorem hosts_deliver:
  assumes "sys_Run G K p d (Wrap rd w) k = (Inr \<sigma>, k1)" "wr_out w = []" "rd_chunks rd = []"
    and "sys_Run H L q e (Wrap rd' w') l = (Inr \<tau>, l1)" "wr_out w' = []" "rd_chunks rd' = []"
    and "slice_size (pump_of \<sigma>) = n" "slice_size (pump_of \<tau>) = m" "n \<le> 65535" "m \<le> 65535"
    and "run_list (joint_step G K H L) es \<lparr>left_host = \<sigma>, right_host = \<tau>, to_right = 0, to_left = 0\<rparr> = Some j"
    and "n = m \<or> fit_each n m j"
  shows "prefix (write_log (pump_of (right_host j))) (read_log (pump_of (left_host j))) \<and>
    prefix (write_log (pump_of (left_host j))) (read_log (pump_of (right_host j)))"
proof -
  from joint_run_inv [OF assms] have i: "host_ok n (left_host j)" "host_ok m (right_host j)"
    "rx_ok (stream_of (left_host j)) (to_right j) (right_host j)" "rx_ok (stream_of (right_host j)) (to_left j) (left_host j)"
    by (simp_all add: joint_inv_def)
  show ?thesis
    by (rule conjI; rule prefix_order.trans [OF written_prefix received_prefix]) (rule i)+
qed

text \<open>
  C2: Nothing is lost. In the same setting (buffers of at most 65535 bytes and of the same size, or packets that
  fit the buffers of the other host): when the sender's tunnel is still open, all its bytes have arrived, and
  the receiver has read all of them and is back in \<^verbatim>\<open>RecvFrame\<close> for the next frame, so that it holds no packet,
  then every packet the sender read from its kernel has been handed to the receiver's kernel, in order,
  except for at most the one the sender has in hand.
\<close>

theorem hosts_lossless:
  assumes "sys_Run G K p d (Wrap rd w) k = (Inr \<sigma>, k1)" "wr_out w = []" "rd_chunks rd = []"
    and "sys_Run H L q e (Wrap rd' w') l = (Inr \<tau>, l1)" "wr_out w' = []" "rd_chunks rd' = []"
    and "slice_size (pump_of \<sigma>) = n" "slice_size (pump_of \<tau>) = m" "n \<le> 65535" "m \<le> 65535"
    and "run_list (joint_step G K H L) es \<lparr>left_host = \<sigma>, right_host = \<tau>, to_right = 0, to_left = 0\<rparr> = Some j"
    and "n = m \<or> fit_each n m j"
    and "\<not> tn_closed (tun_of (left_host j))" "to_right j = length (wr_out (tn_out (tun_of (left_host j))))"
    and "rd_bytes (tn_in (tun_of (right_host j))) = []" "down (pump_of (right_host j)) = DnRecv"
  shows "\<exists>qs. read_log (pump_of (left_host j)) = write_log (pump_of (right_host j)) @ qs \<and> length qs \<le> 1"
proof -
  from joint_run_inv [OF assms(1-12)] have i: "host_ok n (left_host j)" "host_ok m (right_host j)"
    "rx_ok (stream_of (left_host j)) (to_right j) (right_host j)" by (simp_all add: joint_inv_def)
  from host_stream [OF i(1)] assms(13) obtain ps qs where h: "stream_of (left_host j) = concat (map enc_frame (map packet_frame ps))"
    "list_all wf_frame (map packet_frame ps)" "read_log (pump_of (left_host j)) = ps @ qs" "length qs \<le> 1"
    by (metis append_Nil2)
  from i(3) assms(14-16) obtain rs where r: "list_all wf_frame rs" "stream_of (left_host j) = concat (map enc_frame rs)"
    "recv_log (pump_of (right_host j)) = concat (map payload rs)" by (auto simp: rx_ok_def)
  have "rs = map packet_frame ps" by (rule records_unique [OF r(1) h(2)]) (use h(1) r(2) in simp)
  then have "recv_log (pump_of (right_host j)) = ps" using r(3) payload_packet_frames by simp
  moreover have "recv_log (pump_of (right_host j)) = write_log (pump_of (right_host j))"
    using i(2) assms(16) by (simp add: host_ok_def pump_inv_def down_data_def)
  ultimately show ?thesis using h(3,4) by auto
qed

lemmas small_start = small_host_Run [unfolded quiet_tunnel_def]

text \<open>A run of two sample hosts in which one packet crosses in two pieces.\<close>

definition crossing :: "joint_event list" where
  "crossing = [JLeft (SUpLoop Fresh), JRight SDnLoop, JLeft SReadCheck, JLeft SReadDo, JRight SRecvCheck, JLeft SDispatch,
     JLeft SSend, JLeft SSendDo, JToRight 2, JToRight 9, JRight (SRecvDo Fresh), JRight SCopy, JRight SWriteCheck, JRight SWriteDo,
     JLeft (SUpLoop (Reuse 0)), JRight SDnLoop, JLeft SReadCheck, JLeft SReadDo]"

definition crossed :: "(go_error option list, fd list, go_error option list, fd list) joint" where
  "crossed = \<lparr>
     left_host = small_host\<lparr>
       pump_of := (pump_init list_group 4)\<lparr>heap := [[0x45, 0, 0, 0]], up := UpGot 0 1, read_log := [[0x45], [0x45]],
         send_log := [packet_frame [0x45]]\<rparr>,
       tun_of := quiet_tunnel\<lparr>tn_out := \<lparr>wr_out = [4, 0, 1, 0x45], wr_faults = []\<rparr>\<rparr>\<rparr>,
     right_host = small_host\<lparr>
       pump_of := (pump_init list_group 4)\<lparr>heap := [[0x45, 0, 0, 0]], pool := [0], down := DnRecv,
         recv_log := [[0x45]], write_log := [[0x45]]\<rparr>\<rparr>,
     to_right = 4, to_left = 0\<rparr>"

lemma crossing_ready: "would_block \<lparr>rd_chunks = [[4, 0], [1, 0x45]], rd_err = Sentinel EOF, rd_eager = False\<rparr> = False"
  by code_simp

lemma crossing_read: "ReadFrame \<lparr>rd_chunks = [[4, 0], [1, 0x45]], rd_err = Sentinel EOF, rd_eager = False\<rparr>
  = ((Some (packet_frame [0x45]), None), \<lparr>rd_chunks = [], rd_err = Sentinel EOF, rd_eager = False\<rparr>)"
  by code_simp

lemma crossing_write: "WriteFrame ((bare_frame 4)\<lparr>Packet := Some [0x45]\<rparr>) \<lparr>wr_out = [], wr_faults = []\<rparr>
  = (None, \<lparr>wr_out = [4, 0, 1, 0x45], wr_faults = []\<rparr>)"
  by (simp add: WriteFrame_def bare_frame_def packet_bytes_def tag_simps wr_then_def io_Write_def PutUint16_def MaxIPPacket_def)

lemma bare_Close: "Close (bare_frame t) = None" "Packet (bare_frame t) = None"
  by (simp_all add: bare_frame_def)

lemma sample_tags: "tag_dispatch 0x45 = Some 4" "tag_dispatch 0x60 = Some 6"
  by code_simp+

lemmas host_eval = small_host_def idle_host_def quiet_tunnel_def Wrap_def sample_device_def sample_kernel_def pump_init_def
  lock_held_def  list_group_def lift_pump_def up_fire.simps down_fire.simps ctx_done_def getBuf_def alloc_def putBuf_def store_def load_def
  read_check_def read_body_def File_Read_def File_Write_def recv_check_def recv_read_def SendFrame_def sample_tags
  packet_frame_def Let_def eval_nat_numeral

lemma crossing_run:
  "run_list (joint_step list_group sample_kernel list_group sample_kernel) crossing
     \<lparr>left_host = small_host, right_host = small_host, to_right = 0, to_left = 0\<rparr> = Some crossed"
  by (simp add: crossing_def host_eval crossing_ready crossing_read crossing_write bare_Close crossed_def)

lemma crossed_logs:
  "write_log (pump_of (right_host crossed)) = [[0x45]]" "read_log (pump_of (left_host crossed)) = [[0x45], [0x45]]"
  "slice_size (pump_of small_host) = 4"
  by (simp_all add: crossed_def small_host_def pump_init_def)

theorem hosts_deliver_witness:
  "write_log (pump_of (right_host crossed)) = [[0x45]] \<and> read_log (pump_of (left_host crossed)) = [[0x45], [0x45]] \<and>
   prefix (write_log (pump_of (right_host crossed))) (read_log (pump_of (left_host crossed))) \<and>
   prefix (write_log (pump_of (left_host crossed))) (read_log (pump_of (right_host crossed)))"
  using hosts_deliver [OF small_start _ _ small_start _ _ _ _ _ _ crossing_run, of 4 4] crossed_logs by simp

text \<open>The same run when the receiving host has larger buffers.\<close>

definition roomy_host :: "(go_error option list, fd list) system" where
  "roomy_host = idle_host\<lparr>pump_of := pump_init list_group 6\<rparr>"

definition roomy_crossed :: "(go_error option list, fd list, go_error option list, fd list) joint" where
  "roomy_crossed = crossed\<lparr>right_host := small_host\<lparr>
     pump_of := (pump_init list_group 6)\<lparr>heap := [[0x45, 0, 0, 0, 0, 0]], pool := [0], down := DnRecv,
       recv_log := [[0x45]], write_log := [[0x45]]\<rparr>\<rparr>\<rparr>"

lemma roomy_host_Run:
  "sys_Run list_group sample_kernel (pump_New \<lparr>BufferOverhead = - 1494\<rparr>) sample_device quiet_tunnel [1] = (Inr roomy_host, [1])"
  by code_simp

lemma roomy_run:
  "run_list (joint_step list_group sample_kernel list_group sample_kernel) crossing
     \<lparr>left_host = small_host, right_host = roomy_host, to_right = 0, to_left = 0\<rparr> = Some roomy_crossed"
  by (simp add: crossing_def roomy_host_def host_eval crossing_ready crossing_read crossing_write bare_Close
      roomy_crossed_def crossed_def)

theorem hosts_lossless_witness:
  "\<exists>qs. read_log (pump_of (left_host roomy_crossed)) = write_log (pump_of (right_host roomy_crossed)) @ qs \<and> length qs \<le> 1"
  by (rule hosts_lossless [OF small_start _ _ roomy_host_Run [unfolded quiet_tunnel_def] _ _ _ _ _ _ roomy_run, of 4 6])
    (simp_all add: roomy_crossed_def crossed_def small_host_def roomy_host_def idle_host_def quiet_tunnel_def Wrap_def
      pump_init_def rd_bytes_def fit_each_def)

section \<open>Buffers of different sizes\<close>

text \<open>
  Two hosts whose devices have different MTUs: the kernel of the first delivers a packet that fits its
  own buffers and not those of the second.
\<close>

definition mtu_kernel :: "u32 \<Rightarrow> bytes \<Rightarrow> fd list kernel" where
  "mtu_kernel mtu p = sample_kernel\<lparr>ifreq_Uint32 := \<lambda>b. mtu, fd_read := \<lambda>fd n k. ((take n p, None), k)\<rparr>"

definition tight_pump :: pump where
  "tight_pump = pump_New \<lparr>BufferOverhead = 1\<rparr>"

definition tight_host :: "nat \<Rightarrow> (go_error option list, fd list) system" where
  "tight_host n = idle_host\<lparr>pump_of := pump_init list_group n\<rparr>"

definition unequal_run :: "joint_event list" where
  "unequal_run = [JLeft (SUpLoop Fresh), JLeft SReadCheck, JLeft SReadDo, JLeft SDispatch, JLeft SSend, JLeft SSendDo, JToRight 9,
     JRight SDnLoop, JRight SRecvCheck, JRight (SRecvDo Fresh), JRight SCopy,
     JRight (SUpLoop (Reuse 0)), JRight SReadCheck, JRight SReadDo, JRight SWriteCheck, JRight SWriteDo]"

lemma tight_Run:
  "sys_Run list_group (mtu_kernel 6 [0x60, 1, 2, 3, 4, 5]) tight_pump sample_device quiet_tunnel [1] = (Inr (tight_host 7), [1])"
  "sys_Run list_group (mtu_kernel 3 [0x45, 9, 9]) tight_pump sample_device quiet_tunnel [1] = (Inr (tight_host 4), [1])"
  by code_simp+

lemma unequal_ready: "would_block \<lparr>rd_chunks = [[6, 0, 6, 0x60, 1, 2, 3, 4, 5]], rd_err = Sentinel EOF, rd_eager = False\<rparr> = False"
  by code_simp

lemma unequal_read: "ReadFrame \<lparr>rd_chunks = [[6, 0, 6, 0x60, 1, 2, 3, 4, 5]], rd_err = Sentinel EOF, rd_eager = False\<rparr>
  = ((Some (packet_frame [0x60, 1, 2, 3, 4, 5]), None), \<lparr>rd_chunks = [], rd_err = Sentinel EOF, rd_eager = False\<rparr>)"
  by code_simp

lemma unequal_write: "WriteFrame ((bare_frame 6)\<lparr>Packet := Some [0x60, 1, 2, 3, 4, 5]\<rparr>) \<lparr>wr_out = [], wr_faults = []\<rparr>
  = (None, \<lparr>wr_out = [6, 0, 6, 0x60, 1, 2, 3, 4, 5], wr_faults = []\<rparr>)"
  by (simp add: WriteFrame_def bare_frame_def packet_bytes_def tag_simps wr_then_def io_Write_def PutUint16_def MaxIPPacket_def)

abbreviation left_kernel :: "fd list kernel" where
  "left_kernel \<equiv> mtu_kernel 6 [0x60, 1, 2, 3, 4, 5]"

abbreviation right_kernel :: "fd list kernel" where
  "right_kernel \<equiv> mtu_kernel 3 [0x45, 9, 9]"

lemma mtu_kernel_documented: "fds_documented (mtu_kernel n p) set \<and> read_documented (mtu_kernel n p)"
  using sample_kernel_documented by (simp add: mtu_kernel_def fds_documented_def read_documented_def)

lemma unequal_runs:
  "\<exists>j. run_list (joint_step list_group left_kernel list_group right_kernel) unequal_run
       \<lparr>left_host = tight_host 7, right_host = tight_host 4, to_right = 0, to_left = 0\<rparr> = Some j \<and>
     read_log (pump_of (left_host j)) = [[0x60, 1, 2, 3, 4, 5]] \<and> read_log (pump_of (right_host j)) = [[0x45, 9, 9]] \<and>
     write_log (pump_of (right_host j)) = [[0x45, 9, 9, 3, 4, 5]]"
  by (simp add: unequal_run_def tight_host_def mtu_kernel_def host_eval unequal_ready unequal_read unequal_write bare_Close)

text \<open>
  The condition on the buffer sizes is needed. Two hosts run the same pump on devices with MTU 6
  and MTU 3, their kernels behave as documented, and each kernel delivers only packets within its own
  MTU. The packet of the first host is larger than the buffers of the second, so \<^verbatim>\<open>getBuf\<close> there
  returns a buffer that it has also put into the pool; \<^verbatim>\<open>pumpUp\<close> takes it and reads a local packet
  into it before \<^verbatim>\<open>pumpDown\<close> has written it out, and the second kernel is handed mixed bytes that no
  kernel ever sent.
\<close>

lemma hosts_unequal_corrupt:
  "fds_documented left_kernel set \<and> read_documented left_kernel \<and> fds_documented right_kernel set \<and> read_documented right_kernel \<and>
   (\<exists>\<sigma> \<tau> k l es j. sys_Run list_group left_kernel tight_pump sample_device quiet_tunnel [1] = (Inr \<sigma>, k) \<and>
      sys_Run list_group right_kernel tight_pump sample_device quiet_tunnel [1] = (Inr \<tau>, l) \<and>
      run_list (joint_step list_group left_kernel list_group right_kernel) es
        \<lparr>left_host = \<sigma>, right_host = \<tau>, to_right = 0, to_left = 0\<rparr> = Some j \<and>
      read_log (pump_of (left_host j)) = [[0x60, 1, 2, 3, 4, 5]] \<and> read_log (pump_of (right_host j)) = [[0x45, 9, 9]] \<and>
      write_log (pump_of (right_host j)) = [[0x45, 9, 9, 3, 4, 5]])"
  using mtu_kernel_documented tight_Run unequal_runs by blast

end
