(* ===== verification/Go_CIDR.thy ===== *)
theory Go_CIDR
  imports Go_Net
begin

text \<open>
  \<^verbatim>\<open>net.ParseCIDR\<close> and what it calls in the standard library: \<^verbatim>\<open>netip.ParseAddr\<close> with
  its IPv4 and IPv6 parsers and \<^verbatim>\<open>dtoi\<close>. The repository only asks whether the call returns
  an error, so the result is the address with its prefix length. The lemmas bound the
  characters an accepted text can hold.
\<close>

datatype ip_addr = AddrV4 bytes | AddrV6 bytes string

definition is_digit :: "char \<Rightarrow> bool" where
  "is_digit c \<longleftrightarrow> 48 \<le> (of_char c :: nat) \<and> (of_char c :: nat) \<le> 57"

definition digit_val :: "char \<Rightarrow> nat" where
  "digit_val c = of_char c - 48"

text \<open>\<^verbatim>\<open>dtoi\<close>: the number, the count of bytes used, and success; at most \<^verbatim>\<open>0xFFFFFF\<close>.\<close>

fun dtoi_loop :: "string \<Rightarrow> nat \<Rightarrow> nat \<Rightarrow> nat \<times> nat \<times> bool" where
  "dtoi_loop [] n i = (if i = 0 then (0, 0, False) else (n, i, True))"
| "dtoi_loop (c # cs) n i =
     (if is_digit c then
        (let n' = n * 10 + digit_val c in
         if n' \<ge> 0xFFFFFF then (0xFFFFFF, i, False) else dtoi_loop cs n' (Suc i))
      else if i = 0 then (0, 0, False) else (n, i, True))"

definition dtoi :: "string \<Rightarrow> nat \<times> nat \<times> bool" where
  "dtoi s = dtoi_loop s 0 0"

text \<open>\<^verbatim>\<open>parseIPv4Fields\<close>: \<open>prev\<close> is the previous character, \<open>fields\<close> the finished octets.\<close>

fun v4_fields :: "string \<Rightarrow> char option \<Rightarrow> nat \<Rightarrow> nat \<Rightarrow> nat list \<Rightarrow> nat list option" where
  "v4_fields [] prev val digLen fields = (if length fields < 3 then None else Some (fields @ [val]))"
| "v4_fields (c # cs) prev val digLen fields =
     (if is_digit c then
        (if digLen = 1 \<and> val = 0 then None
         else (let val' = val * 10 + digit_val c in
               if val' > 255 then None else v4_fields cs (Some c) val' (Suc digLen) fields))
      else if c = CHR ''.'' then
        (if prev = None \<or> cs = [] \<or> prev = Some (CHR ''.'') then None
         else if length fields = 3 then None
         else v4_fields cs (Some c) 0 0 (fields @ [val]))
      else None)"

definition parseIPv4Fields :: "string \<Rightarrow> bytes option" where
  "parseIPv4Fields s = map_option (map word_of_nat) (v4_fields s None 0 0 [])"

definition hex_val :: "char \<Rightarrow> nat option" where
  "hex_val c =
     (let n = of_char c :: nat in
      if 48 \<le> n \<and> n \<le> 57 then Some (n - 48)
      else if 97 \<le> n \<and> n \<le> 102 then Some (n - 87)
      else if 65 \<le> n \<and> n \<le> 70 then Some (n - 55)
      else None)"

text \<open>One hexadecimal group: the number of digits, the value, the rest of the text.\<close>

fun hex_group :: "string \<Rightarrow> nat \<Rightarrow> nat \<Rightarrow> (nat \<times> nat \<times> string) option" where
  "hex_group [] off acc = Some (off, acc, [])"
| "hex_group (c # cs) off acc =
     (case hex_val c of
        None \<Rightarrow> Some (off, acc, c # cs)
      | Some d \<Rightarrow> if off > 3 \<or> acc * 16 + d > 65535 then None else hex_group cs (Suc off) (acc * 16 + d))"

text \<open>
  The group loop of \<^verbatim>\<open>parseIPv6\<close>; \<open>k\<close> groups may still follow, \<open>ip\<close> holds the bytes so far,
  \<open>ell\<close> the position of the ellipsis.
\<close>

fun v6_groups :: "nat \<Rightarrow> string \<Rightarrow> bytes \<Rightarrow> nat option \<Rightarrow> (string \<times> bytes \<times> nat option) option" where
  "v6_groups 0 s ip ell = Some (s, ip, ell)"
| "v6_groups (Suc k) s ip ell =
     (case hex_group s 0 0 of
        None \<Rightarrow> None
      | Some (off, acc, rest) \<Rightarrow>
          if off = 0 then None
          else if rest \<noteq> [] \<and> hd rest = CHR ''.'' then
            (if ell = None \<and> length ip \<noteq> 12 then None
             else if length ip + 4 > 16 then None
             else (case parseIPv4Fields s of None \<Rightarrow> None | Some fs \<Rightarrow> Some ([], ip @ fs, ell)))
          else
            (let ip' = ip @ [word_of_nat (acc div 256), word_of_nat (acc mod 256)] in
             case rest of
               [] \<Rightarrow> Some ([], ip', ell)
             | c # cs \<Rightarrow>
                 if c \<noteq> CHR '':'' then None
                 else (case cs of
                         [] \<Rightarrow> None
                       | d # ds \<Rightarrow>
                           if d = CHR '':'' then
                             (if ell \<noteq> None then None
                              else if ds = [] then Some ([], ip', Some (length ip'))
                              else v6_groups k ds ip' (Some (length ip')))
                           else v6_groups k cs ip' ell)))"

text \<open>\<^verbatim>\<open>strings.Cut\<close> at the first occurrence of a character.\<close>

fun cut :: "char \<Rightarrow> string \<Rightarrow> (string \<times> string) option" where
  "cut c [] = None"
| "cut c (x # xs) = (if x = c then Some ([], xs) else map_option (\<lambda>(a, b). (x # a, b)) (cut c xs))"

definition v6_finish :: "string \<Rightarrow> bytes \<Rightarrow> nat option \<Rightarrow> string \<Rightarrow> ip_addr option" where
  "v6_finish s ip ell zone =
     (if s \<noteq> [] then None
      else if length ip < 16 then
        (case ell of None \<Rightarrow> None
         | Some e \<Rightarrow> Some (AddrV6 (take e ip @ replicate (16 - length ip) 0 @ drop e ip) zone))
      else if ell \<noteq> None then None
      else Some (AddrV6 ip zone))"

definition v6_body :: "string \<Rightarrow> string \<Rightarrow> ip_addr option" where
  "v6_body s zone =
     (let lead = length s \<ge> 2 \<and> s ! 0 = CHR '':'' \<and> s ! 1 = CHR '':'';
          s' = (if lead then drop 2 s else s) in
      if lead \<and> s' = [] then Some (AddrV6 (replicate 16 0) zone)
      else (case v6_groups 8 s' [] (if lead then Some 0 else None) of
              None \<Rightarrow> None
            | Some (r, ip, ell) \<Rightarrow> v6_finish r ip ell zone))"

definition parseIPv6 :: "string \<Rightarrow> ip_addr option" where
  "parseIPv6 s =
     (case cut (CHR ''%'') s of
        None \<Rightarrow> v6_body s []
      | Some (a, zone) \<Rightarrow> if zone = [] then None else v6_body a zone)"

fun addr_kind :: "string \<Rightarrow> char option" where
  "addr_kind [] = None"
| "addr_kind (c # cs) = (if c \<in> {CHR ''.'', CHR '':'', CHR ''%''} then Some c else addr_kind cs)"

definition ParseAddr :: "string \<Rightarrow> ip_addr option" where
  "ParseAddr s =
     (case addr_kind s of
        None \<Rightarrow> None
      | Some c \<Rightarrow>
          if c = CHR ''.'' then map_option AddrV4 (parseIPv4Fields s)
          else if c = CHR '':'' then parseIPv6 s
          else None)"

fun BitLen :: "ip_addr \<Rightarrow> nat" where
  "BitLen (AddrV4 _) = 32"
| "BitLen (AddrV6 _ _) = 128"

fun Zone :: "ip_addr \<Rightarrow> string" where
  "Zone (AddrV4 _) = []"
| "Zone (AddrV6 _ z) = z"

definition ParseCIDR :: "string \<Rightarrow> (ip_addr \<times> nat) option" where
  "ParseCIDR s =
     (case cut (CHR ''/'') s of
        None \<Rightarrow> None
      | Some (addr, msk) \<Rightarrow>
          (case ParseAddr addr of
             None \<Rightarrow> None
           | Some a \<Rightarrow>
               if Zone a \<noteq> [] then None
               else (case dtoi msk of
                       (n, i, ok) \<Rightarrow> if \<not> ok \<or> i \<noteq> length msk \<or> n > BitLen a then None else Some (a, n))))"

section \<open>Which characters an accepted CIDR can hold\<close>

definition cidr_char :: "char \<Rightarrow> bool" where
  "cidr_char c \<longleftrightarrow> hex_val c \<noteq> None \<or> c \<in> {CHR ''.'', CHR '':'', CHR ''/''}"

lemma cidr_char_simps [simp]:
  "cidr_char (CHR ''.'')" "cidr_char (CHR '':'')" "cidr_char (CHR ''/'')"
  by (simp_all add: cidr_char_def)

lemma is_digit_hex: "is_digit c \<Longrightarrow> hex_val c \<noteq> None"
  by (auto simp: is_digit_def hex_val_def Let_def)

lemma cut_Some: "cut c s = Some (a, b) \<Longrightarrow> s = a @ c # b"
  by (induction s arbitrary: a b) (auto split: if_splits)

lemma dtoi_loop_chars: "dtoi_loop s n i = (m, j, True) \<Longrightarrow> j = i + length s \<Longrightarrow> list_all is_digit s"
proof (induction s n i arbitrary: m j rule: dtoi_loop.induct)
  case (2 c cs n i)
  then show ?case by (auto simp: Let_def split: if_splits)
qed simp

lemma v4_fields_chars:
  "v4_fields s prev val digLen fields = Some r \<Longrightarrow> list_all (\<lambda>c. is_digit c \<or> c = CHR ''.'') s"
  by (induction s prev val digLen fields rule: v4_fields.induct) (auto simp: Let_def split: if_splits)

lemma hex_group_split:
  "hex_group s off acc = Some (off', acc', rest) \<Longrightarrow>
   \<exists>ds. s = ds @ rest \<and> list_all (\<lambda>c. hex_val c \<noteq> None) ds"
proof (induction s off acc arbitrary: off' acc' rest rule: hex_group.induct)
  case (2 c cs off acc)
  then show ?case
    by (fastforce split: option.splits if_splits intro: exI [of _ "[]"] exI [of _ "c # _"])
qed auto

lemma parseIPv4Fields_chars: "parseIPv4Fields s = Some fs \<Longrightarrow> list_all cidr_char s"
  by (auto simp: parseIPv4Fields_def list_all_iff cidr_char_def dest!: v4_fields_chars is_digit_hex)

lemma v6_groups_chars: "v6_groups k s ip ell = Some ([], ip', ell') \<Longrightarrow> list_all cidr_char s"
proof (induction k arbitrary: s ip ell)
  case 0
  then show ?case by simp
next
  case (Suc k)
  then obtain off acc r where g: "hex_group s 0 0 = Some (off, acc, r)"
    by (auto split: option.splits)
  from hex_group_split [OF g] obtain ds where
    s: "s = ds @ r" "list_all (\<lambda>c. hex_val c \<noteq> None) ds" by blast
  then have ds: "list_all cidr_char ds" by (auto simp: cidr_char_def list_all_iff)
  show ?case
  proof (cases "r \<noteq> [] \<and> hd r = CHR ''.''")
    case True
    with Suc.prems g obtain fs where "parseIPv4Fields s = Some fs"
      by (auto split: if_splits option.splits)
    then show ?thesis by (rule parseIPv4Fields_chars)
  next
    case False
    with Suc.prems g have "list_all cidr_char r"
      by (auto simp: Let_def split: if_splits list.splits dest!: Suc.IH)
    with ds s show ?thesis by simp
  qed
qed

lemma v6_finish_Some: "v6_finish r ip ell zone = Some a \<Longrightarrow> r = [] \<and> Zone a = zone"
  by (auto simp: v6_finish_def split: if_splits option.splits)

lemma v6_body_chars:
  assumes "v6_body s zone = Some a"
  shows "list_all cidr_char s \<and> Zone a = zone"
proof -
  define lead where "lead \<longleftrightarrow> length s \<ge> 2 \<and> s ! 0 = CHR '':'' \<and> s ! 1 = CHR '':''"
  define t where "t = (if lead then drop 2 s else s)"
  have "list_all cidr_char t \<and> Zone a = zone"
    using assms unfolding v6_body_def Let_def lead_def [symmetric] t_def [symmetric]
    by (auto split: if_splits option.splits dest!: v6_finish_Some v6_groups_chars)
  moreover have "list_all cidr_char t \<Longrightarrow> list_all cidr_char s"
  proof (cases lead)
    case True
    then obtain u where "s = CHR '':'' # CHR '':'' # u"
      unfolding lead_def by (cases s; cases "tl s") auto
    with True show "list_all cidr_char t \<Longrightarrow> list_all cidr_char s" by (simp add: t_def cidr_char_def)
  qed (simp add: t_def)
  ultimately show ?thesis by blast
qed

text \<open>A text \<^verbatim>\<open>net.ParseCIDR\<close> accepts consists of hexadecimal digits, dots, colons and a slash:
  it holds no white space, no control character and no shell metacharacter.\<close>

lemma ParseCIDR_chars:
  assumes "ParseCIDR s = Some r"
  shows "list_all cidr_char s"
proof -
  obtain addr m a n i where
    c: "cut (CHR ''/'') s = Some (addr, m)" "ParseAddr addr = Some a" "Zone a = []"
       "dtoi m = (n, i, True)" "i = length m"
    using assms by (auto simp: ParseCIDR_def split: option.splits prod.splits if_splits)
  have "list_all is_digit m" using dtoi_loop_chars [of m 0 0 n i] c(4,5) by (simp add: dtoi_def)
  then have "list_all cidr_char m" by (auto simp: list_all_iff cidr_char_def dest: is_digit_hex)
  moreover have "list_all cidr_char addr"
    using c(2,3)
    by (auto simp: ParseAddr_def parseIPv6_def split: option.splits if_splits
        dest: parseIPv4Fields_chars v6_body_chars)
  ultimately show ?thesis using cut_Some [OF c(1)] by (simp add: cidr_char_def)
qed

lemma ParseCIDR_nonempty: "ParseCIDR s = Some r \<Longrightarrow> s \<noteq> []"
  by (auto simp: ParseCIDR_def)

lemmas cidr_eval = ParseCIDR_def ParseAddr_def parseIPv4Fields_def is_digit_def digit_val_def dtoi_def
  Let_def

end
