(* ===== verification/Link.thy ===== *)
theory Link
  imports Go_Errors Go_CIDR "HOL-Library.Sublist"
begin

text \<open>
  Link control: the contract \<^verbatim>\<open>internal/contract/route/link.go\<close> (the typed error, its
  Reason constants, \<^verbatim>\<open>IsLinkError\<close>, \<^verbatim>\<open>LinkReason\<close>) and its Linux implementation
  \<^verbatim>\<open>internal/tunnel/route/link_linux.go\<close>, which runs the \<^verbatim>\<open>ip\<close> binary. The
  \<^verbatim>\<open>Executor\<close> is an argument: a function from the binary, the argument vector and the
  state of the outside world to the captured output, an error and the new outside state. The
  production executor \<open>execCommandRunner\<close> is built from the behaviour of the child process.
  The locale \<open>link_contract\<close> states what the \<^verbatim>\<open>Link\<close> interface promises about addresses;
  it is interpreted on \<open>linux_link\<close>.
\<close>

section \<open>The contract's error type\<close>

definition link_ReasonUnsupportedPlatform :: string where
  "link_ReasonUnsupportedPlatform = ''unsupported_platform''"
definition link_ReasonBinaryNotFound :: string where
  "link_ReasonBinaryNotFound = ''ip_binary_not_found''"
definition link_ReasonCIDRInvalid :: string where
  "link_ReasonCIDRInvalid = ''cidr_invalid''"
definition link_ReasonLinkUpFailed :: string where
  "link_ReasonLinkUpFailed = ''link_up_failed''"
definition link_ReasonLinkDownFailed :: string where
  "link_ReasonLinkDownFailed = ''link_down_failed''"
definition link_ReasonAddressAlreadyAssigned :: string where
  "link_ReasonAddressAlreadyAssigned = ''address_already_assigned''"
definition link_ReasonAddressAddFailed :: string where
  "link_ReasonAddressAddFailed = ''address_add_failed''"

lemmas link_reason_defs = link_ReasonUnsupportedPlatform_def link_ReasonBinaryNotFound_def
  link_ReasonCIDRInvalid_def link_ReasonLinkUpFailed_def link_ReasonLinkDownFailed_def
  link_ReasonAddressAlreadyAssigned_def link_ReasonAddressAddFailed_def

fun is_LinkError :: "go_error \<Rightarrow> bool" where
  "is_LinkError (LinkError _ _) = True"
| "is_LinkError _ = False"

fun LinkError_Reason :: "go_error \<Rightarrow> string" where
  "LinkError_Reason (LinkError r _) = r"
| "LinkError_Reason _ = []"

definition IsLinkError :: "go_error option \<Rightarrow> bool" where
  "IsLinkError err = (case err of None \<Rightarrow> False | Some e \<Rightarrow> errors_As is_LinkError e \<noteq> None)"

definition LinkReason :: "go_error option \<Rightarrow> string" where
  "LinkReason err =
     (case err of
        None \<Rightarrow> []
      | Some e \<Rightarrow> (case errors_As is_LinkError e of None \<Rightarrow> [] | Some le \<Rightarrow> LinkError_Reason le))"

section \<open>The executor\<close>

type_synonym 'w executor = "string \<Rightarrow> string list \<Rightarrow> 'w \<Rightarrow> (string \<times> go_error option) \<times> 'w"

text \<open>
  \<^verbatim>\<open>execCommandRunner.Run\<close>: \<open>child\<close> is the behaviour of \<^verbatim>\<open>exec.Command(name, args...)\<close>
  with both output streams captured, that is the combined output and the error of
  \<^verbatim>\<open>cmd.Run()\<close>.
\<close>

definition execCommandRunner :: "'w executor \<Rightarrow> 'w executor" where
  "execCommandRunner child name args w =
     (case child name args w of
        ((out, Some err), w') \<Rightarrow> ((out, Some (Errorf [Txt (''ip '' @ Join args '' '' @ '': ''), W err])), w')
      | ((out, None), w') \<Rightarrow> ((out, None), w'))"

section \<open>The Linux link\<close>

record 'w link_options =
  IPPath :: string
  Executor :: "'w executor option"

definition WithIPPath :: "string \<Rightarrow> 'w link_options \<Rightarrow> 'w link_options" where
  "WithIPPath p opts = opts\<lparr>IPPath := p\<rparr>"

definition WithExecutor :: "'w executor \<Rightarrow> 'w link_options \<Rightarrow> 'w link_options" where
  "WithExecutor e opts = opts\<lparr>Executor := Some e\<rparr>"

record 'w linux_link =
  ll_name :: string
  ll_ipPath :: string
  ll_executor :: "'w executor"
  ll_assigned :: string

definition defaultIPPath :: string where
  "defaultIPPath = ''/sbin/ip''"

definition link_New :: "'w executor \<Rightarrow> string \<Rightarrow> 'w link_options \<Rightarrow> go_error + 'w linux_link" where
  "link_New child name opts =
     (if name = [] then
        Inl (LinkError link_ReasonCIDRInvalid (Some (ErrorsNew ''link: empty interface name'')))
      else Inr \<lparr>ll_name = name,
        ll_ipPath = (if IPPath opts = [] then defaultIPPath else IPPath opts),
        ll_executor = (case Executor opts of None \<Rightarrow> execCommandRunner child | Some e \<Rightarrow> e),
        ll_assigned = []\<rparr>)"

definition link_Up :: "'w linux_link \<Rightarrow> 'w \<Rightarrow> go_error option \<times> 'w linux_link \<times> 'w" where
  "link_Up l w =
     (case ll_executor l (ll_ipPath l) [''link'', ''set'', ll_name l, ''up''] w of
        ((_, Some err), w') \<Rightarrow> (Some (LinkError link_ReasonLinkUpFailed (Some err)), l, w')
      | ((_, None), w') \<Rightarrow> (None, l, w'))"

definition link_Down :: "'w linux_link \<Rightarrow> 'w \<Rightarrow> go_error option \<times> 'w linux_link \<times> 'w" where
  "link_Down l w =
     (case ll_executor l (ll_ipPath l) [''link'', ''set'', ll_name l, ''down''] w of
        ((_, Some err), w') \<Rightarrow> (Some (LinkError link_ReasonLinkDownFailed (Some err)), l, w')
      | ((_, None), w') \<Rightarrow> (None, l\<lparr>ll_assigned := []\<rparr>, w'))"

definition containsCIDR :: "string \<Rightarrow> string \<Rightarrow> bool" where
  "containsCIDR showOutput cidr =
     list_ex (\<lambda>line. Contains line ('' '' @ cidr @ '' '') \<or> HasSuffix (TrimSpace line) ('' '' @ cidr))
       (Split (char_of (10::nat)) showOutput)"

text \<open>The error \<^verbatim>\<open>net.ParseCIDR\<close> returns: a \<^verbatim>\<open>*net.ParseError\<close>.\<close>

definition ParseCIDR_error :: "string \<Rightarrow> go_error" where
  "ParseCIDR_error s = Foreign (''invalid CIDR address: '' @ s) []"

definition AddAddress :: "string \<Rightarrow> 'w linux_link \<Rightarrow> 'w \<Rightarrow> go_error option \<times> 'w linux_link \<times> 'w" where
  "AddAddress cidr l w =
     (if ParseCIDR cidr = None then
        (Some (LinkError link_ReasonCIDRInvalid
           (Some (Errorf [Txt (''link: parse CIDR '' @ fmt_q cidr @ '': ''), W (ParseCIDR_error cidr)]))), l, w)
      else if ll_assigned l = cidr then (None, l, w)
      else if ll_assigned l \<noteq> [] then
        (Some (LinkError link_ReasonAddressAlreadyAssigned
           (Some (Errorf [Txt (''link: '' @ ll_name l @ '' already has CIDR '' @ ll_assigned l
              @ ''; refusing to assign '' @ cidr)]))), l, w)
      else
        (case ll_executor l (ll_ipPath l) [''addr'', ''add'', cidr, ''dev'', ll_name l] w of
           ((_, None), w1) \<Rightarrow> (None, l\<lparr>ll_assigned := cidr\<rparr>, w1)
         | ((_, Some runErr), w1) \<Rightarrow>
             if \<not> Contains (error_text runErr) ''File exists'' then
               (Some (LinkError link_ReasonAddressAddFailed (Some runErr)), l, w1)
             else
               (case ll_executor l (ll_ipPath l) [''-o'', ''addr'', ''show'', ''dev'', ll_name l] w1 of
                  ((_, Some probeErr), w2) \<Rightarrow>
                    (Some (LinkError link_ReasonAddressAddFailed (Some runErr)), l, w2)
                | ((current, None), w2) \<Rightarrow>
                    if containsCIDR current cidr then (None, l\<lparr>ll_assigned := cidr\<rparr>, w2)
                    else (Some (LinkError link_ReasonAddressAlreadyAssigned (Some runErr)), l, w2))))"

text \<open>The non-Linux stub \<^verbatim>\<open>link_other.go\<close>: the constructor always fails.\<close>

definition link_New_other :: "string \<Rightarrow> string \<Rightarrow> go_error + 'w linux_link" where
  "link_New_other goos name =
     Inl (LinkError link_ReasonUnsupportedPlatform
       (Some (Errorf [Txt (''route: iproute2 is Linux-only (GOOS='' @ goos @ ''); see docs/ARCH.md ''
          @ [char_of (194::nat), char_of (167::nat)] @ ''1'')])))"

section \<open>Sequences of calls\<close>

datatype link_op = LUp | LDown | LAdd string

fun link_step :: "link_op \<Rightarrow> 'w linux_link \<times> 'w \<Rightarrow> go_error option \<times> 'w linux_link \<times> 'w" where
  "link_step LUp (l, w) = link_Up l w"
| "link_step LDown (l, w) = link_Down l w"
| "link_step (LAdd cidr) (l, w) = AddAddress cidr l w"

fun link_run :: "(link_op \<Rightarrow> 's \<Rightarrow> go_error option \<times> 's) \<Rightarrow> link_op list \<Rightarrow> 's
    \<Rightarrow> go_error option list \<times> 's" where
  "link_run step [] s = ([], s)"
| "link_run step (c # cs) s =
     (case step c s of (r, s') \<Rightarrow> (case link_run step cs s' of (rs, s'') \<Rightarrow> (r # rs, s'')))"

lemma link_run_Cons [simp]:
  "link_run step (c # cs) s =
     (fst (step c s) # fst (link_run step cs (snd (step c s))), snd (link_run step cs (snd (step c s))))"
  by (simp split: prod.splits)

declare link_run.simps(2) [simp del]

lemma link_run_append:
  "link_run step (cs @ ds) s =
     (fst (link_run step cs s) @ fst (link_run step ds (snd (link_run step cs s))),
      snd (link_run step ds (snd (link_run step cs s))))"
  by (induction cs arbitrary: s) simp_all

lemma link_run_length [simp]: "length (fst (link_run step cs s)) = length cs"
  by (induction cs arbitrary: s) simp_all

section \<open>The contract of the Link interface\<close>

text \<open>
  What \<^verbatim>\<open>contract/route.Link\<close> promises about addresses: \<open>addr\<close> is the assigned CIDR, the empty
  string when there is none.
\<close>

locale link_contract =
  fixes step :: "link_op \<Rightarrow> 's \<Rightarrow> go_error option \<times> 's"
    and addr :: "'s \<Rightarrow> string"
    and valid :: "string \<Rightarrow> bool"
  assumes add_sets: "fst (step (LAdd c) s) = None \<Longrightarrow> valid c \<and> addr (snd (step (LAdd c) s)) = c"
    and add_same: "valid (addr s) \<Longrightarrow> step (LAdd (addr s)) s = (None, s)"
    and add_conflict: "valid c \<Longrightarrow> valid (addr s) \<Longrightarrow> c \<noteq> addr s \<Longrightarrow>
      \<exists>e. step (LAdd c) s = (Some (LinkError link_ReasonAddressAlreadyAssigned e), s)"
    and add_fails: "fst (step (LAdd c) s) \<noteq> None \<Longrightarrow> addr (snd (step (LAdd c) s)) = addr s"
    and up_keeps: "addr (snd (step LUp s)) = addr s"
    and down_fails: "fst (step LDown s) \<noteq> None \<Longrightarrow> addr (snd (step LDown s)) = addr s"
begin

lemma add_idempotent:
  "fst (step (LAdd c) s) = None \<Longrightarrow> step (LAdd c) (snd (step (LAdd c) s)) = (None, snd (step (LAdd c) s))"
  using add_sets [of c s] add_same [of "snd (step (LAdd c) s)"] by auto

lemma add_only_same:
  assumes "valid (addr s)" "fst (step (LAdd c) s) = None"
  shows "c = addr s"
  using assms add_sets [of c s] add_conflict [of c s] by fastforce

lemma step_keeps_address:
  assumes "valid (addr s)" "\<not> (c = LDown \<and> fst (step c s) = None)"
  shows "addr (snd (step c s)) = addr s"
proof (cases c)
  case (LAdd d)
  with assms add_only_same [of s d] add_same [of s] add_fails [of d s] show ?thesis
    by (cases "fst (step c s)") auto
qed (use assms up_keeps down_fails in auto)

text \<open>Without a successful \<^verbatim>\<open>Down\<close>, an assigned address stays.\<close>

lemma run_keeps_address:
  assumes "valid (addr s)" "\<forall>(c, r) \<in> set (zip cs (fst (link_run step cs s))). \<not> (c = LDown \<and> r = None)"
  shows "addr (snd (link_run step cs s)) = addr s"
  using assms
proof (induction cs arbitrary: s)
  case (Cons c cs)
  then have "addr (snd (step c s)) = addr s" by (intro step_keeps_address) auto
  with Cons show ?case by simp
qed simp

text \<open>Two successful assignments without a successful \<^verbatim>\<open>Down\<close> in between are of one address.\<close>

lemma run_one_address:
  assumes "fst (step (LAdd c) s) = None"
    "\<forall>(x, r) \<in> set (zip mid (fst (link_run step mid (snd (step (LAdd c) s))))). \<not> (x = LDown \<and> r = None)"
    "fst (step (LAdd d) (snd (link_run step mid (snd (step (LAdd c) s))))) = None"
  shows "c = d"
proof -
  from assms(1) have v: "valid c" "addr (snd (step (LAdd c) s)) = c" using add_sets [of c s] by auto
  with assms(2) run_keeps_address [of "snd (step (LAdd c) s)" mid]
  have "addr (snd (link_run step mid (snd (step (LAdd c) s)))) = c" by simp
  with add_only_same [OF _ assms(3)] v show ?thesis by simp
qed

end

lemma AddAddress_result:
  "fst (AddAddress c l w) = None \<Longrightarrow> ParseCIDR c \<noteq> None \<and> ll_assigned (fst (snd (AddAddress c l w))) = c"
  "fst (AddAddress c l w) \<noteq> None \<Longrightarrow> fst (snd (AddAddress c l w)) = l"
proof -
  obtain o1 e1 w1 where 1: "ll_executor l (ll_ipPath l) [''addr'', ''add'', c, ''dev'', ll_name l] w = ((o1, e1), w1)"
    by (metis prod.exhaust)
  obtain o2 e2 w2 where 2: "ll_executor l (ll_ipPath l) [''-o'', ''addr'', ''show'', ''dev'', ll_name l] w1 = ((o2, e2), w2)"
    by (metis prod.exhaust)
  show "fst (AddAddress c l w) = None \<Longrightarrow> ParseCIDR c \<noteq> None \<and> ll_assigned (fst (snd (AddAddress c l w))) = c"
    "fst (AddAddress c l w) \<noteq> None \<Longrightarrow> fst (snd (AddAddress c l w)) = l"
    by (cases e1; cases e2; auto simp: AddAddress_def 1 2 split: if_splits)+
qed

lemma link_Down_result:
  "fst (link_Down l w) \<noteq> None \<Longrightarrow> fst (snd (link_Down l w)) = l"
  by (auto simp: link_Down_def split: prod.splits option.splits)

lemma link_Up_result: "fst (snd (link_Up l w)) = l"
  by (auto simp: link_Up_def split: prod.splits option.splits)

lemma ParseCIDR_Nil [simp]: "ParseCIDR [] = None"
  by (cases "ParseCIDR []") (auto dest: ParseCIDR_nonempty)

interpretation linux: link_contract link_step "\<lambda>(l, w). ll_assigned l" "\<lambda>c. ParseCIDR c \<noteq> None"
proof (unfold_locales, goal_cases)
  case (1 c s)
  then show ?case using AddAddress_result(1) [of c "fst s" "snd s"] by (cases s) (auto split: prod.splits)
next
  case (2 s)
  then show ?case by (cases s) (auto simp: AddAddress_def)
next
  case (3 c s)
  then show ?case by (cases s) (auto simp: AddAddress_def)
next
  case (4 c s)
  then show ?case using AddAddress_result(2) [of c "fst s" "snd s"] by (cases s) (auto split: prod.splits)
next
  case (5 s)
  then show ?case using link_Up_result [of "fst s" "snd s"] by (cases s) (auto split: prod.splits)
next
  case (6 s)
  then show ?case using link_Down_result [of "fst s" "snd s"] by (cases s) (auto split: prod.splits)
qed

interpretation link_err: typed_error is_LinkError LinkError_Reason IsLinkError LinkReason
  by unfold_locales (auto simp: IsLinkError_def LinkReason_def split: option.splits)

section \<open>Addresses\<close>

text \<open>
  C13: On any executor and in any sequence of calls, once \<^verbatim>\<open>AddAddress c\<close> has succeeded, a
  later \<^verbatim>\<open>AddAddress d\<close> can only succeed with \<^verbatim>\<open>d = c\<close>, unless a \<^verbatim>\<open>Down\<close>
  succeeded in between: the link never silently replaces its address.
\<close>

theorem link_one_address:
  assumes "fst (link_run link_step (pre @ LAdd c # mid @ [LAdd d]) (l, w)) = rpre @ None # rmid @ [None]"
    and "length rpre = length pre" "length rmid = length mid"
    and "\<forall>(x, r) \<in> set (zip mid rmid). \<not> (x = LDown \<and> r = None)"
  shows "c = d"
proof -
  let ?s = "snd (link_run link_step pre (l, w))"
  let ?t = "snd (link_step (LAdd c) ?s)"
  from assms(1) have "fst (link_run link_step pre (l, w)) @ fst (link_step (LAdd c) ?s)
      # fst (link_run link_step mid ?t) @ [fst (link_step (LAdd d) (snd (link_run link_step mid ?t)))]
      = rpre @ None # rmid @ [None]"
    by (simp add: link_run_append del: link_step.simps)
  with assms(2,3) have "fst (link_step (LAdd c) ?s) = None" "fst (link_run link_step mid ?t) = rmid"
    "fst (link_step (LAdd d) (snd (link_run link_step mid ?t))) = None" by auto
  with assms(4) show ?thesis by (intro linux.run_one_address [of c ?s mid d]) auto
qed

text \<open>A model of the \<^verbatim>\<open>ip\<close> binary with the kernel's address list as its state.\<close>

definition sample_ip :: "string list executor" where
  "sample_ip name args addrs =
     (if length args = 5 \<and> args ! 1 = ''add'' then
        (if args ! 2 \<in> set addrs then (([], Some (Foreign ''RTNETLINK answers: File exists'' [])), addrs)
         else (([], None), addrs @ [args ! 2]))
      else if length args = 5 then
        ((concat (map (\<lambda>a. '' '' @ a @ '' '' @ [char_of (10::nat)]) (filter (\<lambda>a. ParseCIDR a \<noteq> None) addrs)), None), addrs)
      else (([], None), addrs))"

definition sample_link :: "'w executor \<Rightarrow> 'w linux_link" where
  "sample_link ex = \<lparr>ll_name = ''tun0'', ll_ipPath = defaultIPPath, ll_executor = ex, ll_assigned = []\<rparr>"

definition sample_conflict :: go_error where
  "sample_conflict = LinkError link_ReasonAddressAlreadyAssigned (Some (Errorf [Txt
     ''link: tun0 already has CIDR 10.66.0.2/24; refusing to assign 10.66.0.3/24'']))"

lemma sample_cidrs [simp]:
  "ParseCIDR ''10.66.0.2/24'' = Some (AddrV4 [10, 66, 0, 2], 24)"
  "ParseCIDR ''10.66.0.3/24'' = Some (AddrV4 [10, 66, 0, 3], 24)"
  "ParseCIDR ''10.66.0.2'' = None"
  by (simp_all add: cidr_eval)

lemmas sample_eval = link_Up_def link_Down_def AddAddress_def sample_link_def sample_ip_def

theorem link_one_address_witness:
  "fst (link_run link_step ([LUp] @ LAdd ''10.66.0.2/24'' # [LUp, LAdd ''10.66.0.3/24''] @ [LAdd ''10.66.0.2/24''])
     (sample_link sample_ip, [])) = [None] @ None # [None, Some sample_conflict] @ [None]
   \<and> ''10.66.0.2/24'' = ''10.66.0.2/24''" (is "?run \<and> ?eq")
proof (rule conjI)
  show run: ?run by (simp add: sample_eval sample_conflict_def)
  show ?eq by (rule link_one_address [OF run]) simp_all
qed

section \<open>What reaches the executor\<close>

text \<open>An executor that records the commands it is asked to run.\<close>

definition logging :: "'w executor \<Rightarrow> ((string \<times> string list) list \<times> 'w) executor" where
  "logging ex name args w = (fst (ex name args (snd w)), (fst w @ [(name, args)], snd (ex name args (snd w))))"

definition link_command :: "string \<Rightarrow> string list \<Rightarrow> bool" where
  "link_command name args \<longleftrightarrow>
     args = [''link'', ''set'', name, ''up''] \<or> args = [''link'', ''set'', name, ''down''] \<or>
     args = [''-o'', ''addr'', ''show'', ''dev'', name] \<or>
     (length args = 5 \<and> args = [''addr'', ''add'', args ! 2, ''dev'', name] \<and> ParseCIDR (args ! 2) \<noteq> None)"

definition same_config :: "'w linux_link \<Rightarrow> 'w linux_link \<Rightarrow> bool" where
  "same_config l l' \<longleftrightarrow> ll_name l' = ll_name l \<and> ll_ipPath l' = ll_ipPath l \<and> ll_executor l' = ll_executor l"

lemma link_step_config: "same_config l (fst (snd (link_step c (l, w))))"
  by (cases c) (auto simp: link_Up_def link_Down_def AddAddress_def same_config_def
      split: prod.splits option.splits)

lemma link_run_config: "same_config l (fst (snd (link_run link_step cs (l, w))))"
proof (induction cs arbitrary: l w)
  case (Cons c cs)
  from Cons [of "fst (snd (link_step c (l, w)))" "snd (snd (link_step c (l, w)))"] link_step_config [of l c w]
  show ?case by (simp add: same_config_def del: link_step.simps)
qed (simp add: same_config_def)

lemma link_step_commands:
  assumes "ll_executor l = logging ex"
  shows "\<exists>cs. fst (snd (snd (link_step c (l, w)))) = fst w @ cs \<and>
    length cs \<le> 2 \<and> list_all (\<lambda>(n, args). n = ll_ipPath l \<and> link_command (ll_name l) args) cs"
  using assms
  by (cases c) (auto simp: link_Up_def link_Down_def AddAddress_def logging_def link_command_def
      split: prod.splits option.splits)

lemma link_run_commands:
  assumes "ll_executor l = logging ex"
  shows "\<exists>cms. fst (snd (snd (link_run link_step cs (l, w)))) = fst w @ cms \<and>
    length cms \<le> 2 * length cs \<and> list_all (\<lambda>(n, args). n = ll_ipPath l \<and> link_command (ll_name l) args) cms"
  using assms
proof (induction cs arbitrary: l w)
  case (Cons c cs)
  obtain l1 w1 where s: "snd (link_step c (l, w)) = (l1, w1)" by (cases "snd (link_step c (l, w))")
  from link_step_config [of l c w] s have cfg: "ll_name l1 = ll_name l" "ll_ipPath l1 = ll_ipPath l"
    "ll_executor l1 = ll_executor l" by (auto simp: same_config_def)
  obtain xs where xs: "fst w1 = fst w @ xs" "length xs \<le> 2"
    "list_all (\<lambda>(n, args). n = ll_ipPath l \<and> link_command (ll_name l) args) xs"
    using link_step_commands [OF Cons.prems, of c w] s by auto
  obtain ys where ys: "fst (snd (snd (link_run link_step cs (l1, w1)))) = fst w1 @ ys"
    "length ys \<le> 2 * length cs" "list_all (\<lambda>(n, args). n = ll_ipPath l \<and> link_command (ll_name l) args) ys"
    using Cons.IH [of l1 w1] Cons.prems cfg by auto
  from xs ys s show ?case by (intro exI [of _ "xs @ ys"]) (simp del: link_step.simps)
qed simp

text \<open>
  C14: Whatever the callers pass and however the binary answers, the only commands the link ever
  runs are its four fixed argument vectors on the configured binary and its own interface name;
  a CIDR reaches the binary only when \<^verbatim>\<open>net.ParseCIDR\<close> accepts it, and no command removes
  an address. Each call runs at most two commands.
\<close>

theorem link_commands_safe:
  assumes "link_New child name (WithExecutor (logging ex) (WithIPPath path opts)) = Inr l"
    and "link_run link_step cs (l, ([], w)) = (rs, (l', (log, w')))"
  shows "length log \<le> 2 * length cs \<and>
    list_all (\<lambda>(bin, args). bin = (if path = [] then ''/sbin/ip'' else path) \<and> link_command name args) log"
proof -
  from assms(1) have l: "ll_executor l = logging ex" "ll_name l = name"
    "ll_ipPath l = (if path = [] then ''/sbin/ip'' else path)"
    by (auto simp: link_New_def WithExecutor_def WithIPPath_def defaultIPPath_def split: if_splits)
  from link_run_commands [OF l(1), of cs "([], w)"] assms(2) l(2,3)
  show ?thesis by auto
qed

theorem link_commands_safe_witness:
  "length [(''/usr/sbin/ip'', [''addr'', ''add'', ''10.66.0.2/24'', ''dev'', ''tun0''])] \<le> 2 * length [LAdd ''10.66.0.2'', LAdd ''10.66.0.2/24''] \<and>
   list_all (\<lambda>(bin, args). bin = (if ''/usr/sbin/ip'' = [] then ''/sbin/ip'' else ''/usr/sbin/ip'') \<and> link_command ''tun0'' args)
     [(''/usr/sbin/ip'', [''addr'', ''add'', ''10.66.0.2/24'', ''dev'', ''tun0''])]"
  by (rule link_commands_safe [of "logging sample_ip" _ sample_ip _ "\<lparr>IPPath = [], Executor = None\<rparr>"
        "sample_link (logging sample_ip)\<lparr>ll_ipPath := ''/usr/sbin/ip''\<rparr>" _ "[]" "[fst (AddAddress ''10.66.0.2'' (sample_link (logging sample_ip)) ([], [])), None]"
        "sample_link (logging sample_ip)\<lparr>ll_ipPath := ''/usr/sbin/ip'', ll_assigned := ''10.66.0.2/24''\<rparr>" _ "[''10.66.0.2/24'']"])
    (simp_all add: link_New_def WithExecutor_def WithIPPath_def defaultIPPath_def logging_def sample_eval)

section \<open>Errors\<close>

definition link_reasons :: "string list" where
  "link_reasons = [link_ReasonCIDRInvalid, link_ReasonLinkUpFailed, link_ReasonLinkDownFailed,
     link_ReasonAddressAlreadyAssigned, link_ReasonAddressAddFailed]"

lemma link_step_errors:
  "fst (link_step c (l, w)) = Some e \<Longrightarrow> \<exists>r cause. e = LinkError r (Some cause) \<and> r \<in> set link_reasons"
  by (cases c) (auto simp: link_Up_def link_Down_def AddAddress_def link_reasons_def
      split: prod.splits option.splits if_splits)

text \<open>
  C27: Every error of the link, from its constructor or from any call in any sequence, is a
  \<^verbatim>\<open>*LinkError\<close> with a non-nil cause that callers recognise with \<^verbatim>\<open>IsLinkError\<close>, also
  through one layer of wrapping, and whose \<^verbatim>\<open>LinkReason\<close> is one of five constants. The constant
  \<^verbatim>\<open>ReasonBinaryNotFound\<close> is not one of them: a missing binary is never reported as such.
\<close>

theorem link_errors_typed:
  assumes "Some e \<in> set (fst (link_run link_step cs (l, w))) \<or> link_New child name opts = (Inl e :: go_error + 'w linux_link)"
  shows "IsLinkError (Some e) \<and> LinkReason (Some e) \<in> set link_reasons \<and>
    LinkReason (Some (Errorf [Txt m, W e])) = LinkReason (Some e) \<and> unwrap e \<noteq> [] \<and>
    LinkReason (Some e) \<noteq> ''ip_binary_not_found''"
proof -
  have "\<exists>r cause. e = LinkError r (Some cause) \<and> r \<in> set link_reasons"
    using assms
  proof
    assume "Some e \<in> set (fst (link_run link_step cs (l, w)))"
    then show ?thesis
    proof (induction cs arbitrary: l w)
      case (Cons c cs)
      then show ?case
        using link_step_errors [of c l w e] by (cases "snd (link_step c (l, w))") (auto simp del: link_step.simps)
    qed simp
  next
    assume "link_New child name opts = Inl e"
    then show ?thesis by (auto simp: link_New_def link_reasons_def split: if_splits)
  qed
  then obtain r cause where e: "e = LinkError r (Some cause)" "r \<in> set link_reasons" by blast
  with link_err.reason_direct [of e] link_err.reason_wrapped [of "Errorf [Txt m, W e]" e] show ?thesis
    by (auto simp: link_reasons_def link_reason_defs)
qed

theorem link_errors_typed_witness:
  "fst (link_run link_step [LAdd ''10.66.0.2''] (sample_link sample_ip, [])) \<noteq> [None] \<and>
   (let e = the (hd (fst (link_run link_step [LAdd ''10.66.0.2''] (sample_link sample_ip, [])))) in
    IsLinkError (Some e) \<and> LinkReason (Some e) \<in> set link_reasons \<and>
    LinkReason (Some (Errorf [Txt ''setup: '', W e])) = LinkReason (Some e) \<and> unwrap e \<noteq> [] \<and>
    LinkReason (Some e) \<noteq> ''ip_binary_not_found'')"
  unfolding Let_def
  by (rule conjI, simp add: sample_eval,
      rule link_errors_typed [of _ "[LAdd ''10.66.0.2'']" "sample_link sample_ip" "[]" sample_ip "''tun0''"
        "\<lparr>IPPath = [], Executor = None\<rparr>"], simp add: sample_eval)

section \<open>What the cached address means\<close>

text \<open>An executor that records each command with its answer.\<close>

type_synonym exchange = "string list \<times> string \<times> go_error option"

definition recording :: "'w executor \<Rightarrow> (exchange list \<times> 'w) executor" where
  "recording ex name args w = (case ex name args (snd w) of (r, w') \<Rightarrow> (r, (fst w @ [(args, r)], w')))"

text \<open>
  The exchanges that confirm an address: \<^verbatim>\<open>ip addr add\<close> succeeded, or it failed with a message that
  says \<^verbatim>\<open>File exists\<close> and the listing that followed has the address as a token of some line, between
  two blanks or after a blank at the end.
\<close>

definition lists_address :: "string \<Rightarrow> string \<Rightarrow> bool" where
  "lists_address out c \<longleftrightarrow> (\<exists>line \<in> set (Split (char_of (10::nat)) out).
     (\<exists>p q. line = p @ '' '' @ c @ '' '' @ q) \<or> (\<exists>p. TrimSpace line = p @ '' '' @ c))"

definition confirms :: "string \<Rightarrow> string \<Rightarrow> exchange list \<Rightarrow> bool" where
  "confirms dev c ex \<longleftrightarrow>
     (\<exists>out. ex = [([''addr'', ''add'', c, ''dev'', dev], out, None)]) \<or>
     (\<exists>o1 e1 pre post o2. ex = [([''addr'', ''add'', c, ''dev'', dev], o1, Some e1), ([''-o'', ''addr'', ''show'', ''dev'', dev], o2, None)] \<and>
        error_text e1 = pre @ ''File exists'' @ post \<and> lists_address o2 c)"

text \<open>The commands that leave a cached address in place: \<^verbatim>\<open>link set up\<close>, and \<^verbatim>\<open>link set down\<close> when it fails.\<close>

fun harmless :: "string \<Rightarrow> exchange \<Rightarrow> bool" where
  "harmless dev (args, out, err) \<longleftrightarrow>
     args = [''link'', ''set'', dev, ''up''] \<or> args = [''link'', ''set'', dev, ''down''] \<and> err \<noteq> None"

definition cache_ok :: "'w linux_link \<Rightarrow> exchange list \<Rightarrow> bool" where
  "cache_ok l log \<longleftrightarrow> (ll_assigned l \<noteq> [] \<longrightarrow>
     ParseCIDR (ll_assigned l) \<noteq> None \<and>
     (\<exists>pre ex post. log = pre @ ex @ post \<and> confirms (ll_name l) (ll_assigned l) ex \<and> list_all (harmless (ll_name l)) post))"

lemma containsCIDR_lists: "containsCIDR out c \<longleftrightarrow> lists_address out c"
  unfolding containsCIDR_def lists_address_def list_ex_iff
  by (auto simp: Contains_iff HasSuffix_iff sublist_def suffix_def)

lemma cache_ok_harmless:
  assumes "cache_ok l log" "list_all (harmless (ll_name l)) post"
  shows "cache_ok l (log @ post)"
  unfolding cache_ok_def
proof (intro impI conjI)
  assume a: "ll_assigned l \<noteq> []"
  with assms(1) show "ParseCIDR (ll_assigned l) \<noteq> None" by (simp add: cache_ok_def)
  from a assms(1) obtain pre ex p where "log = pre @ ex @ p" "confirms (ll_name l) (ll_assigned l) ex" "list_all (harmless (ll_name l)) p"
    unfolding cache_ok_def by blast
  with assms(2) show "\<exists>pre ex post'. log @ post = pre @ ex @ post' \<and> confirms (ll_name l) (ll_assigned l) ex \<and>
      list_all (harmless (ll_name l)) post'"
    by (intro exI [of _ pre] exI [of _ ex] exI [of _ "p @ post"]) simp
qed

lemma cache_ok_confirmed:
  "ParseCIDR c \<noteq> None \<Longrightarrow> confirms (ll_name l) c ex \<Longrightarrow> cache_ok (l\<lparr>ll_assigned := c\<rparr>) (log @ ex)"
  unfolding cache_ok_def by (intro impI conjI exI [of _ log] exI [of _ ex] exI [of _ "[]"]) simp_all

lemma cache_ok_none: "ll_assigned l = [] \<Longrightarrow> cache_ok l log"
  by (simp add: cache_ok_def)

lemma link_add_cache:
  assumes "cache_ok l (fst w)" "ll_executor l = recording ex"
  shows "cache_ok (fst (snd (AddAddress c l w))) (fst (snd (snd (AddAddress c l w))))"
proof (cases "ParseCIDR c = None \<or> ll_assigned l \<noteq> []")
  case True
  with assms(1) show ?thesis by (auto simp: AddAddress_def)
next
  case False
  then have c: "ParseCIDR c \<noteq> None" "ll_assigned l = []" "c \<noteq> []" by auto
  let ?add = "[''addr'', ''add'', c, ''dev'', ll_name l]"
  let ?show = "[''-o'', ''addr'', ''show'', ''dev'', ll_name l]"
  obtain o1 e1 w1 where 1: "ex (ll_ipPath l) ?add (snd w) = ((o1, e1), w1)" by (metis surj_pair)
  obtain o2 e2 w2 where 2: "ex (ll_ipPath l) ?show w1 = ((o2, e2), w2)" by (metis surj_pair)
  show ?thesis
  proof (cases e1)
    case None
    have "confirms (ll_name l) c [(?add, o1, None)]" by (simp add: confirms_def)
    with None 1 c assms(2) cache_ok_confirmed [of c l] show ?thesis by (auto simp: AddAddress_def recording_def)
  next
    case (Some e)
    show ?thesis
    proof (cases "Contains (error_text e) ''File exists'' \<and> e2 = None \<and> containsCIDR o2 c")
      case True
      then obtain pre post where "error_text e = pre @ ''File exists'' @ post" by (auto simp: Contains_iff sublist_def)
      with True have "confirms (ll_name l) c [(?add, o1, Some e), (?show, o2, None)]"
        by (auto simp: confirms_def containsCIDR_lists)
      with True Some 1 2 c assms(2) cache_ok_confirmed [of c l "[(?add, o1, Some e), (?show, o2, None)]" "fst w"] show ?thesis
        by (auto simp: AddAddress_def recording_def simp del: Contains.simps)
    next
      case False
      with Some 1 2 c assms(2) show ?thesis
        by (auto simp: AddAddress_def recording_def cache_ok_none simp del: Contains.simps split: option.splits)
    qed
  qed
qed

lemma link_step_cache:
  assumes "cache_ok l (fst w)" "ll_executor l = recording ex" "link_step c (l, w) = (r, (l', w'))"
  shows "cache_ok l' (fst w')"
proof (cases c)
  case LUp
  with assms cache_ok_harmless [OF assms(1)] show ?thesis
    by (auto simp: link_Up_def recording_def split: prod.splits option.splits)
next
  case LDown
  with assms cache_ok_harmless [OF assms(1)] show ?thesis
    by (auto simp: link_Down_def recording_def cache_ok_none split: prod.splits option.splits)
next
  case (LAdd a)
  with assms link_add_cache [OF assms(1,2), of a] show ?thesis by simp
qed

lemma link_run_cache:
  assumes "cache_ok l (fst w)" "ll_executor l = recording ex" "link_run link_step cs (l, w) = (rs, (l', w'))"
  shows "cache_ok l' (fst w')"
  using assms
proof (induction cs arbitrary: l w rs)
  case (Cons c cs)
  obtain r l1 w1 where s: "link_step c (l, w) = (r, (l1, w1))" by (cases "link_step c (l, w)") auto
  have "ll_executor l1 = recording ex" using link_step_config [of l c w] s Cons.prems(2) by (simp add: same_config_def)
  moreover obtain rs' where "link_run link_step cs (l1, w1) = (rs', (l', w'))"
    using Cons.prems(3) s by (cases "link_run link_step cs (l1, w1)") (auto simp del: link_step.simps)
  ultimately show ?case using Cons.IH link_step_cache [OF Cons.prems(1,2) s] by blast
qed simp

text \<open>
  C15: The cached address is never stale in view of what the link has seen. On any executor and after
  any sequence of calls on a new link: when an address is cached, it is a valid CIDR, the link has
  confirmed it by \<^verbatim>\<open>ip addr add\<close> (a success, or a \<^verbatim>\<open>File exists\<close> failure followed by a listing in
  which some line has it as a token), and since then it has run no other command than \<^verbatim>\<open>link set up\<close> and
  failed \<^verbatim>\<open>link set down\<close>; in particular no other address was added since.
\<close>

theorem link_cache_sound:
  assumes "link_New child name (WithExecutor (recording ex) opts) = Inr l"
    and "link_run link_step cs (l, ([], w)) = (rs, (l', (log, w')))" "ll_assigned l' \<noteq> []"
  shows "ParseCIDR (ll_assigned l') \<noteq> None \<and>
    (\<exists>pre ex post. log = pre @ ex @ post \<and> confirms name (ll_assigned l') ex \<and> list_all (harmless name) post)"
proof -
  from assms(1) have l: "ll_executor l = recording ex" "ll_name l = name" "ll_assigned l = []"
    by (auto simp: link_New_def WithExecutor_def split: if_splits)
  have "ll_name l' = name" using link_run_config [of l cs "([], w)"] assms(2) l(2) by (simp add: same_config_def)
  moreover have "cache_ok l' log" using link_run_cache [OF _ l(1) assms(2)] cache_ok_none [OF l(3)] by simp
  ultimately show ?thesis using assms(3) by (simp add: cache_ok_def)
qed

definition recorded_link :: "(exchange list \<times> string list) linux_link" where
  "recorded_link = sample_link (recording sample_ip)"

theorem link_cache_sound_witness:
  "ParseCIDR (ll_assigned (recorded_link\<lparr>ll_assigned := ''10.66.0.2/24''\<rparr>)) \<noteq> None \<and>
   (\<exists>pre ex post. [([''addr'', ''add'', ''10.66.0.2/24'', ''dev'', ''tun0''], [], None), ([''link'', ''set'', ''tun0'', ''up''], [], None)]
      = pre @ ex @ post \<and> confirms ''tun0'' (ll_assigned (recorded_link\<lparr>ll_assigned := ''10.66.0.2/24''\<rparr>)) ex \<and>
      list_all (harmless ''tun0'') post)"
  by (rule link_cache_sound [of "recording sample_ip" _ sample_ip "\<lparr>IPPath = [], Executor = None\<rparr>" recorded_link
        "[LAdd ''10.66.0.2/24'', LUp]" "[]" "[None, None]" _ _ "[''10.66.0.2/24'']"])
    (simp_all add: link_New_def WithExecutor_def defaultIPPath_def recorded_link_def recording_def sample_eval)

text \<open>
  C37: \<^verbatim>\<open>Down\<close> lets a second address in. While an address is cached, \<^verbatim>\<open>AddAddress\<close> of a different valid
  CIDR is refused without running any command. After a \<^verbatim>\<open>Down\<close> whose command succeeds, the same
  \<^verbatim>\<open>AddAddress\<close> is no longer refused: it runs \<^verbatim>\<open>ip addr add\<close>, and returns nil whenever the binary
  does, although neither call removed the first address (\<^verbatim>\<open>Down\<close> runs only \<^verbatim>\<open>link set down\<close>, which by
  the code's own comment preserves addresses).
\<close>

theorem Down_allows_second_address:
  assumes "ll_executor l = recording ex" "ParseCIDR (ll_assigned l) \<noteq> None" "ParseCIDR d \<noteq> None" "d \<noteq> ll_assigned l"
    and "ex (ll_ipPath l) [''link'', ''set'', ll_name l, ''down''] w = ((o1, None), w1)"
    and "ex (ll_ipPath l) [''addr'', ''add'', d, ''dev'', ll_name l] w1 = ((o2, None), w2)"
  shows "(\<exists>e. link_run link_step [LAdd d] (l, (log, w)) = ([Some e], (l, (log, w))) \<and>
      LinkReason (Some e) = ''address_already_assigned'') \<and>
    link_run link_step [LDown, LAdd d] (l, (log, w)) = ([None, None], (l\<lparr>ll_assigned := d\<rparr>,
      (log @ [([''link'', ''set'', ll_name l, ''down''], o1, None), ([''addr'', ''add'', d, ''dev'', ll_name l], o2, None)], w2)))"
proof -
  have "d \<noteq> []" "ll_assigned l \<noteq> []" using assms(2,3) by auto
  then show ?thesis
    using assms link_err.reason_direct
    by (auto simp: AddAddress_def link_Down_def recording_def link_ReasonAddressAlreadyAssigned_def)
qed

theorem Down_allows_second_address_witness:
  "link_run link_step [LDown, LAdd ''10.66.0.3/24''] (recorded_link\<lparr>ll_assigned := ''10.66.0.2/24''\<rparr>, ([], [''10.66.0.2/24'']))
    = ([None, None], (recorded_link\<lparr>ll_assigned := ''10.66.0.3/24''\<rparr>,
       ([([''link'', ''set'', ''tun0'', ''down''], [], None), ([''addr'', ''add'', ''10.66.0.3/24'', ''dev'', ''tun0''], [], None)],
        [''10.66.0.2/24'', ''10.66.0.3/24''])))"
  using Down_allows_second_address [of "recorded_link\<lparr>ll_assigned := ''10.66.0.2/24''\<rparr>" sample_ip "''10.66.0.3/24''"
      "[''10.66.0.2/24'']" "[]" "[''10.66.0.2/24'']" "[]" "[''10.66.0.2/24'', ''10.66.0.3/24'']" "[]"]
  by (simp add: recorded_link_def sample_link_def sample_ip_def)

section \<open>The production executor and the File-exists probe\<close>

text \<open>Whether two characters occur next to each other.\<close>

fun has_pair :: "char \<Rightarrow> char \<Rightarrow> string \<Rightarrow> bool" where
  "has_pair a b (x # y # zs) = (x = a \<and> y = b \<or> has_pair a b (y # zs))"
| "has_pair a b _ = False"

lemma has_pair_append:
  "has_pair a b (xs @ ys) \<longleftrightarrow> has_pair a b xs \<or> has_pair a b ys \<or> (xs \<noteq> [] \<and> ys \<noteq> [] \<and> last xs = a \<and> hd ys = b)"
proof (induction xs)
  case (Cons x xs)
  then show ?case by (cases xs; cases ys) auto
qed simp

lemma has_pair_notin: "a \<notin> set xs \<or> b \<notin> set xs \<Longrightarrow> \<not> has_pair a b xs"
  by (induction a b xs rule: has_pair.induct) auto

lemma sublist_has_pair: "sublist (a # b # t) s \<Longrightarrow> has_pair a b s"
  by (auto simp: sublist_def has_pair_append)

lemma no_File_exists:
  assumes "ParseCIDR cidr \<noteq> None" "CHR ''F'' \<notin> set pre" "CHR ''F'' \<notin> set post" "post = CHR '' '' # post'"
  shows "\<not> Contains (pre @ cidr @ post) ''File exists''"
proof
  assume "Contains (pre @ cidr @ post) ''File exists''"
  then have "has_pair (CHR ''F'') (CHR ''i'') (pre @ cidr @ post)"
    by (intro sublist_has_pair [where t = "''le exists''"]) (simp add: Contains_iff)
  moreover have "\<not> cidr_char (CHR ''i'')" by (simp add: cidr_char_def hex_val_def)
  then have "CHR ''i'' \<notin> set cidr" using assms(1) ParseCIDR_chars [of cidr] by (auto simp: list_all_iff)
  ultimately show False using assms(2-4) has_pair_notin
    by (auto simp: has_pair_append dest: last_in_set)
qed

text \<open>
  C36: With the production executor the idempotency probe is dead code: the error the executor
  returns holds the command line and the child's exit status, never what the child wrote to its
  standard error. So when \<^verbatim>\<open>ip addr add\<close> fails, also because the same address is already on the
  device and the child printed \<^verbatim>\<open>RTNETLINK answers: File exists\<close>, \<^verbatim>\<open>AddAddress\<close> runs no
  probe and returns \<^verbatim>\<open>address_add_failed\<close>, whatever \<open>out\<close> the child wrote. The hypotheses: the
  address is valid and not cached, the interface name and the child's error text (such as
  \<^verbatim>\<open>exit status 2\<close>) hold no capital F.
\<close>

theorem AddAddress_production_no_probe:
  assumes "link_New child name \<lparr>IPPath = path, Executor = None\<rparr> = Inr l"
    and "ParseCIDR cidr \<noteq> None"
    and "child (ll_ipPath l) [''addr'', ''add'', cidr, ''dev'', name] w = ((out, Some err), w')"
    and "CHR ''F'' \<notin> set name" "CHR ''F'' \<notin> set (error_text err)"
  shows "AddAddress cidr l w = (Some (LinkError link_ReasonAddressAddFailed
      (Some (Errorf [Txt (''ip addr add '' @ cidr @ '' dev '' @ name @ '': ''), W err]))), l, w')"
proof -
  from assms(1) have l: "ll_executor l = execCommandRunner child" "ll_name l = name" "ll_assigned l = []"
    by (auto simp: link_New_def split: if_splits)
  have "\<not> Contains (''ip addr add '' @ cidr @ '' dev '' @ name @ '': '' @ error_text err) ''File exists''"
    by (rule no_File_exists [OF assms(2), where post' = "''dev '' @ name @ '': '' @ error_text err"])
      (use assms(4,5) in auto)
  moreover have "cidr \<noteq> []" using assms(2) by auto
  ultimately show ?thesis using assms(2,3) l
    by (simp add: AddAddress_def execCommandRunner_def del: Contains.simps)
qed

definition sample_child :: "string list executor" where
  "sample_child name args addrs = ((''RTNETLINK answers: File exists'', Some (Foreign ''exit status 2'' [])), addrs)"

theorem AddAddress_production_no_probe_witness:
  "AddAddress ''10.66.0.2/24'' (sample_link (execCommandRunner sample_child)) [''10.66.0.2/24''] =
     (Some (LinkError link_ReasonAddressAddFailed (Some (Errorf [Txt (''ip addr add '' @ ''10.66.0.2/24'' @ '' dev '' @ ''tun0'' @ '': ''),
        W (Foreign ''exit status 2'' [])]))), sample_link (execCommandRunner sample_child), [''10.66.0.2/24''])"
  by (rule AddAddress_production_no_probe [of sample_child _ "[]" _ _ _ "''RTNETLINK answers: File exists''"])
    (simp_all add: link_New_def sample_link_def defaultIPPath_def sample_child_def)

text \<open>
  What the probe decides when it does run, that is with an executor whose error text carries
  the kernel's message: the address is adopted exactly when some line of the listing has it as a
  blank-delimited token after the first, or at its end; otherwise the conflict is reported as
  \<^verbatim>\<open>address_already_assigned\<close>; and a failing probe never masks the first error.
\<close>

lemma AddAddress_probe:
  assumes "ParseCIDR cidr \<noteq> None" "ll_assigned l = []"
    and "ll_executor l (ll_ipPath l) [''addr'', ''add'', cidr, ''dev'', ll_name l] w = ((o1, Some e1), w1)"
    and "error_text e1 = pre @ ''File exists'' @ post"
    and "ll_executor l (ll_ipPath l) [''-o'', ''addr'', ''show'', ''dev'', ll_name l] w1 = ((Join lines [char_of (10::nat)], e2), w2)"
    and "lines \<noteq> []" "\<forall>line \<in> set lines. char_of (10::nat) \<notin> set line"
  shows "AddAddress cidr l w =
    (if e2 \<noteq> None then (Some (LinkError link_ReasonAddressAddFailed (Some e1)), l, w2)
     else if \<exists>line \<in> set lines. (\<exists>p q. line = p @ '' '' @ cidr @ '' '' @ q) \<or> (\<exists>p. TrimSpace line = p @ '' '' @ cidr)
     then (None, l\<lparr>ll_assigned := cidr\<rparr>, w2)
     else (Some (LinkError link_ReasonAddressAlreadyAssigned (Some e1)), l, w2))"
proof -
  have sp: "Split (char_of (10::nat)) (Join ls [char_of (10::nat)]) = ls"
    if "ls \<noteq> []" "\<forall>line \<in> set ls. char_of (10::nat) \<notin> set line" for ls
    using that by (induction ls "[char_of (10::nat)]" rule: Join.induct) (auto simp: Split_single Split_append)
  have "containsCIDR (Join lines [char_of (10::nat)]) cidr \<longleftrightarrow>
    (\<exists>line \<in> set lines. (\<exists>p q. line = p @ '' '' @ cidr @ '' '' @ q) \<or> (\<exists>p. TrimSpace line = p @ '' '' @ cidr))"
    unfolding containsCIDR_def sp [OF assms(6,7)] list_ex_iff
    by (auto simp: Contains_iff HasSuffix_iff sublist_def suffix_def)
  moreover have "Contains (error_text e1) ''File exists''" unfolding assms(4) Contains_iff by (rule sublist_appendI)
  moreover have "cidr \<noteq> []" using assms(1) by auto
  ultimately show ?thesis using assms(1-3,5) by (auto simp: AddAddress_def split: option.splits)
qed

end
