(* ===== verification/Mocks.thy ===== *)
theory Mocks
  imports Link
begin

text \<open>
  The mocks of the \<^verbatim>\<open>Link\<close> and \<^verbatim>\<open>Pump\<close> interfaces, \<^verbatim>\<open>internal/contract/route/link_mock.go\<close>
  and \<^verbatim>\<open>internal/contract/session/pump_mock.go\<close>, as \<^verbatim>\<open>moq\<close> generated them. A function field is an
  option (a nil field is \<open>None\<close>) of a function on the state of the test that set it. Calling a
  method whose field is nil panics; otherwise the call is recorded under its lock and then forwarded.
  The locale \<open>recorder\<close> is the contract of one mocked method.
\<close>

section \<open>Calls that may panic\<close>

datatype 'r outcome = Panic string | Returned 'r

section \<open>LinkMock\<close>

record AddAddress_call =
  Cidr :: string

record 's LinkMock =
  AddAddressFunc :: "(string \<Rightarrow> 's \<Rightarrow> go_error option \<times> 's) option"
  DownFunc :: "('s \<Rightarrow> go_error option \<times> 's) option"
  UpFunc :: "('s \<Rightarrow> go_error option \<times> 's) option"
  calls_AddAddress :: "AddAddress_call list"
  calls_Down :: "unit list"
  calls_Up :: "unit list"

definition LinkMock_AddAddress ::
  "string \<Rightarrow> 's LinkMock \<times> 's \<Rightarrow> go_error option outcome \<times> 's LinkMock \<times> 's" where
  "LinkMock_AddAddress cidr ms =
     (case ms of (mock, s) \<Rightarrow>
        case AddAddressFunc mock of
          None \<Rightarrow> (Panic ''LinkMock.AddAddressFunc: method is nil but Link.AddAddress was just called'', mock, s)
        | Some f \<Rightarrow>
            (let mock' = mock\<lparr>calls_AddAddress := calls_AddAddress mock @ [\<lparr>Cidr = cidr\<rparr>]\<rparr> in
             case f cidr s of (err, s') \<Rightarrow> (Returned err, mock', s')))"

definition AddAddressCalls :: "'s LinkMock \<Rightarrow> AddAddress_call list" where
  "AddAddressCalls mock = calls_AddAddress mock"

definition LinkMock_Down :: "'s LinkMock \<times> 's \<Rightarrow> go_error option outcome \<times> 's LinkMock \<times> 's" where
  "LinkMock_Down ms =
     (case ms of (mock, s) \<Rightarrow>
        case DownFunc mock of
          None \<Rightarrow> (Panic ''LinkMock.DownFunc: method is nil but Link.Down was just called'', mock, s)
        | Some f \<Rightarrow>
            (let mock' = mock\<lparr>calls_Down := calls_Down mock @ [()]\<rparr> in
             case f s of (err, s') \<Rightarrow> (Returned err, mock', s')))"

definition DownCalls :: "'s LinkMock \<Rightarrow> unit list" where
  "DownCalls mock = calls_Down mock"

definition LinkMock_Up :: "'s LinkMock \<times> 's \<Rightarrow> go_error option outcome \<times> 's LinkMock \<times> 's" where
  "LinkMock_Up ms =
     (case ms of (mock, s) \<Rightarrow>
        case UpFunc mock of
          None \<Rightarrow> (Panic ''LinkMock.UpFunc: method is nil but Link.Up was just called'', mock, s)
        | Some f \<Rightarrow>
            (let mock' = mock\<lparr>calls_Up := calls_Up mock @ [()]\<rparr> in
             case f s of (err, s') \<Rightarrow> (Returned err, mock', s')))"

definition UpCalls :: "'s LinkMock \<Rightarrow> unit list" where
  "UpCalls mock = calls_Up mock"

section \<open>PumpMock\<close>

record ('c, 'd, 't) Run_call =
  Ctx :: 'c
  Dev :: 'd
  Tun :: 't

record ('c, 'd, 't, 's) PumpMock =
  RunFunc :: "('c \<Rightarrow> 'd \<Rightarrow> 't \<Rightarrow> 's \<Rightarrow> go_error option \<times> 's) option"
  calls_Run :: "('c, 'd, 't) Run_call list"

definition PumpMock_Run ::
  "'c \<Rightarrow> 'd \<Rightarrow> 't \<Rightarrow> ('c, 'd, 't, 's) PumpMock \<times> 's \<Rightarrow> go_error option outcome \<times> ('c, 'd, 't, 's) PumpMock \<times> 's" where
  "PumpMock_Run ctx dev tun ms =
     (case ms of (mock, s) \<Rightarrow>
        case RunFunc mock of
          None \<Rightarrow> (Panic ''PumpMock.RunFunc: method is nil but Pump.Run was just called'', mock, s)
        | Some f \<Rightarrow>
            (let mock' = mock\<lparr>calls_Run := calls_Run mock @ [\<lparr>Ctx = ctx, Dev = dev, Tun = tun\<rparr>]\<rparr> in
             case f ctx dev tun s of (err, s') \<Rightarrow> (Returned err, mock', s')))"

definition RunCalls :: "('c, 'd, 't, 's) PumpMock \<Rightarrow> ('c, 'd, 't) Run_call list" where
  "RunCalls mock = calls_Run mock"

section \<open>The contract of a mocked method\<close>

text \<open>Calling a method for a list of arguments; a panic ends the test.\<close>

fun call_all :: "('a \<Rightarrow> 'm \<times> 's \<Rightarrow> 'r outcome \<times> 'm \<times> 's) \<Rightarrow> 'a list \<Rightarrow> 'm \<times> 's \<Rightarrow> 'r outcome list \<times> 'm \<times> 's" where
  "call_all call [] ms = ([], ms)"
| "call_all call (a # as) ms =
     (case call a ms of
        (Panic p, ms') \<Rightarrow> ([Panic p], ms')
      | (Returned r, ms') \<Rightarrow> (case call_all call as ms' of (rs, ms'') \<Rightarrow> (Returned r # rs, ms'')))"

text \<open>The same calls made directly on the function.\<close>

fun direct :: "('a \<Rightarrow> 's \<Rightarrow> 'r \<times> 's) \<Rightarrow> 'a list \<Rightarrow> 's \<Rightarrow> 'r list \<times> 's" where
  "direct f [] s = ([], s)"
| "direct f (a # as) s = (case f a s of (r, s') \<Rightarrow> case direct f as s' of (rs, s'') \<Rightarrow> (r # rs, s''))"

locale recorder =
  fixes call :: "'a \<Rightarrow> 'm \<times> 's \<Rightarrow> 'r outcome \<times> 'm \<times> 's"
    and stub :: "'m \<Rightarrow> 'a \<Rightarrow> ('s \<Rightarrow> 'r \<times> 's) option"
    and message :: "'a \<Rightarrow> string"
    and log :: "'m \<Rightarrow> 'e list"
    and entry :: "'a \<Rightarrow> 'e list"
  assumes nil_panics: "stub m a = None \<Longrightarrow> call a (m, s) = (Panic (message a), m, s)"
    and forwards: "stub m a = Some f \<Longrightarrow> f s = (r, s') \<Longrightarrow>
      \<exists>m'. call a (m, s) = (Returned r, m', s') \<and> log m' = log m @ entry a \<and> stub m' = stub m"
begin

text \<open>
  The calls up to the first one without a function are forwarded and recorded, in order; that one
  panics and leaves no record.
\<close>

lemma call_all_outcome:
  defines "F m \<equiv> \<lambda>a. the (stub m a)" and "forwarded m \<equiv> takeWhile (\<lambda>a. stub m a \<noteq> None)"
  shows "fst (call_all call as (m, s)) = map Returned (fst (direct (F m) (forwarded m as) s)) @
      (case drop (length (forwarded m as)) as of [] \<Rightarrow> [] | a # _ \<Rightarrow> [Panic (message a)])"
    and "snd (snd (call_all call as (m, s))) = snd (direct (F m) (forwarded m as) s)"
    and "log (fst (snd (call_all call as (m, s)))) = log m @ concat (map entry (forwarded m as))"
proof (induction as arbitrary: m s)
  case (Cons a as)
  have step: "stub m a = None \<and> call a (m, s) = (Panic (message a), m, s) \<or>
    (\<exists>f r s' m'. stub m a = Some f \<and> f s = (r, s') \<and> call a (m, s) = (Returned r, m', s') \<and>
       log m' = log m @ entry a \<and> stub m' = stub m)" for m s
    using nil_panics forwards by (cases "stub m a"; cases "the (stub m a) s") fastforce+
  { case 1 show ?case using step [of m s] by (elim disjE exE conjE)
      (simp_all add: F_def forwarded_def case_prod_beta Cons.IH(1) [unfolded F_def forwarded_def]) }
  { case 2 show ?case using step [of m s] by (elim disjE exE conjE)
      (simp_all add: F_def forwarded_def case_prod_beta Cons.IH(2) [unfolded F_def forwarded_def]) }
  { case 3 show ?case using step [of m s] by (elim disjE exE conjE)
      (simp_all add: F_def forwarded_def case_prod_beta Cons.IH(3) [unfolded F_def forwarded_def]) }
qed (simp_all add: F_def forwarded_def)

end

section \<open>The mocked interfaces\<close>

fun mock_step :: "link_op \<Rightarrow> 's LinkMock \<times> 's \<Rightarrow> go_error option outcome \<times> 's LinkMock \<times> 's" where
  "mock_step (LAdd cidr) ms = LinkMock_AddAddress cidr ms"
| "mock_step LDown ms = LinkMock_Down ms"
| "mock_step LUp ms = LinkMock_Up ms"

fun mock_func :: "'s LinkMock \<Rightarrow> link_op \<Rightarrow> ('s \<Rightarrow> go_error option \<times> 's) option" where
  "mock_func mock (LAdd cidr) = map_option (\<lambda>f. f cidr) (AddAddressFunc mock)"
| "mock_func mock LDown = DownFunc mock"
| "mock_func mock LUp = UpFunc mock"

fun mock_message :: "link_op \<Rightarrow> string" where
  "mock_message (LAdd _) = ''LinkMock.AddAddressFunc: method is nil but Link.AddAddress was just called''"
| "mock_message LDown = ''LinkMock.DownFunc: method is nil but Link.Down was just called''"
| "mock_message LUp = ''LinkMock.UpFunc: method is nil but Link.Up was just called''"

fun add_entry :: "link_op \<Rightarrow> AddAddress_call list" where
  "add_entry (LAdd cidr) = [\<lparr>Cidr = cidr\<rparr>]"
| "add_entry _ = []"

fun down_entry :: "link_op \<Rightarrow> unit list" where
  "down_entry LDown = [()]"
| "down_entry _ = []"

fun up_entry :: "link_op \<Rightarrow> unit list" where
  "up_entry LUp = [()]"
| "up_entry _ = []"

lemmas mock_defs = LinkMock_AddAddress_def LinkMock_Down_def LinkMock_Up_def AddAddressCalls_def DownCalls_def
  UpCalls_def PumpMock_Run_def RunCalls_def

lemma mock_nil: "mock_func m c = None \<Longrightarrow> mock_step c (m, s) = (Panic (mock_message c), m, s)"
  by (cases c) (simp_all add: mock_defs)

lemma mock_set: "mock_func m c = Some f \<Longrightarrow> f s = (r, s') \<Longrightarrow>
    \<exists>m'. mock_step c (m, s) = (Returned r, m', s') \<and> AddAddressCalls m' = AddAddressCalls m @ add_entry c \<and>
      DownCalls m' = DownCalls m @ down_entry c \<and> UpCalls m' = UpCalls m @ up_entry c \<and> mock_func m' = mock_func m"
proof (cases c)
  case (LAdd cidr)
  assume "mock_func m c = Some f" "f s = (r, s')"
  moreover have "mock_func (m\<lparr>calls_AddAddress := xs\<rparr>) = mock_func m" for xs
    by (rule ext, case_tac x) simp_all
  ultimately show ?thesis using LAdd by (auto simp: mock_defs)
next
  case LDown
  assume "mock_func m c = Some f" "f s = (r, s')"
  moreover have "mock_func (m\<lparr>calls_Down := xs\<rparr>) = mock_func m" for xs
    by (rule ext, case_tac x) simp_all
  ultimately show ?thesis using LDown by (auto simp: mock_defs)
next
  case LUp
  assume "mock_func m c = Some f" "f s = (r, s')"
  moreover have "mock_func (m\<lparr>calls_Up := xs\<rparr>) = mock_func m" for xs
    by (rule ext, case_tac x) simp_all
  ultimately show ?thesis using LUp by (auto simp: mock_defs)
qed

interpretation adds: recorder mock_step mock_func mock_message AddAddressCalls add_entry
  by unfold_locales (simp add: mock_nil, drule (1) mock_set, blast)

interpretation downs: recorder mock_step mock_func mock_message DownCalls down_entry
  by unfold_locales (simp add: mock_nil, drule (1) mock_set, blast)

interpretation ups: recorder mock_step mock_func mock_message UpCalls up_entry
  by unfold_locales (simp add: mock_nil, drule (1) mock_set, blast)

interpretation runs: recorder "\<lambda>(ctx, dev, tun). PumpMock_Run ctx dev tun"
  "\<lambda>mock (ctx, dev, tun). map_option (\<lambda>f. f ctx dev tun) (RunFunc mock)"
  "\<lambda>_. ''PumpMock.RunFunc: method is nil but Pump.Run was just called''"
  RunCalls "\<lambda>(ctx, dev, tun). [\<lparr>Ctx = ctx, Dev = dev, Tun = tun\<rparr>]"
  by unfold_locales (auto simp: mock_defs)

lemma all_taken: "takeWhile (\<lambda>a. True) cs = cs"
  by (simp add: takeWhile_eq_all_conv)

lemma direct_link_run: "direct f cs s = link_run f cs s"
  by (induction cs arbitrary: s) (simp_all add: case_prod_beta)

section \<open>Properties\<close>

lemma concat_add_entry: "concat (map add_entry cs) = map (\<lambda>c. \<lparr>Cidr = c\<rparr>) [c. LAdd c \<leftarrow> cs]"
  by (induction cs) (auto split: link_op.splits)

lemma length_down_entry: "length (concat (map down_entry cs)) = count_list cs LDown"
proof (induction cs)
  case (Cons c cs)
  then show ?case by (cases c) simp_all
qed simp

lemma length_up_entry: "length (concat (map up_entry cs)) = count_list cs LUp"
proof (induction cs)
  case (Cons c cs)
  then show ?case by (cases c) simp_all
qed simp

text \<open>
  C38: A \<^verbatim>\<open>LinkMock\<close> whose three functions are the methods of a Linux link is that link: every
  sequence of calls gives the same errors and the same state, without a panic, and the recorded calls
  are the calls that were made: the CIDRs in order, and the numbers of \<^verbatim>\<open>Down\<close> and \<^verbatim>\<open>Up\<close> calls.
\<close>

theorem LinkMock_spy:
  "\<exists>m. call_all mock_step cs
      (\<lparr>AddAddressFunc = Some (\<lambda>c (l, w). AddAddress c l w), DownFunc = Some (\<lambda>(l, w). link_Down l w),
        UpFunc = Some (\<lambda>(l, w). link_Up l w), calls_AddAddress = [], calls_Down = [], calls_Up = []\<rparr>, (l, w))
      = (map Returned (fst (link_run link_step cs (l, w))), m, snd (link_run link_step cs (l, w))) \<and>
    map Cidr (AddAddressCalls m) = [c. LAdd c \<leftarrow> cs] \<and>
    length (DownCalls m) = count_list cs LDown \<and> length (UpCalls m) = count_list cs LUp"
proof -
  let ?m = "\<lparr>AddAddressFunc = Some (\<lambda>c (l, w). AddAddress c l w), DownFunc = Some (\<lambda>(l, w). link_Down l w),
    UpFunc = Some (\<lambda>(l, w). link_Up l w), calls_AddAddress = [], calls_Down = [], calls_Up = []\<rparr>"
  have f: "mock_func ?m c = Some (link_step c)" for c by (cases c) (auto intro!: ext)
  note rules = adds.call_all_outcome [of cs ?m "(l, w)"] downs.call_all_outcome(3) [of cs ?m "(l, w)"]
    ups.call_all_outcome(3) [of cs ?m "(l, w)"]
  have e: "AddAddressCalls ?m = []" "DownCalls ?m = []" "UpCalls ?m = []" by (simp_all add: mock_defs)
  show ?thesis
    by (rule exI [of _ "fst (snd (call_all mock_step cs (?m, (l, w))))"])
      (use rules in \<open>simp add: f e prod_eq_iff direct_link_run concat_add_entry length_down_entry length_up_entry comp_def all_taken\<close>)
qed

end
