(* ===== verification/Preflight.thy ===== *)
theory Preflight
  imports Tun_Device
begin

text \<open>
  The pre-flight check: the contract \<^verbatim>\<open>internal/contract/tun/preflight.go\<close> and its Linux
  implementation \<^verbatim>\<open>internal/tunnel/tun/preflight_linux.go\<close>, with the stub
  \<^verbatim>\<open>preflight_other.go\<close>. \<^verbatim>\<open>os.Stat\<close> and \<^verbatim>\<open>capget\<close> are fields of the record \<open>host\<close>,
  an argument of the probes. The locale \<open>probe\<close> is the contract of one probe (nil exactly when its
  precondition holds, otherwise a typed error with one of its reasons); two probes run in order
  satisfy it again, and it is interpreted on the two default probes.
\<close>

section \<open>The contract's error type\<close>

definition pf_ReasonUnsupportedPlatform :: string where
  "pf_ReasonUnsupportedPlatform = ''unsupported_platform''"
definition pf_ReasonTUNDeviceMissing :: string where
  "pf_ReasonTUNDeviceMissing = ''tun_device_missing''"
definition pf_ReasonTUNDeviceNotReadWrite :: string where
  "pf_ReasonTUNDeviceNotReadWrite = ''tun_device_not_read_write''"
definition pf_ReasonCAPNetAdminMissing :: string where
  "pf_ReasonCAPNetAdminMissing = ''cap_net_admin_missing''"
definition pf_ReasonCapProbeFailed :: string where
  "pf_ReasonCapProbeFailed = ''cap_probe_failed''"

lemmas pf_reason_defs = pf_ReasonUnsupportedPlatform_def pf_ReasonTUNDeviceMissing_def
  pf_ReasonTUNDeviceNotReadWrite_def pf_ReasonCAPNetAdminMissing_def pf_ReasonCapProbeFailed_def

fun is_PreflightError :: "go_error \<Rightarrow> bool" where
  "is_PreflightError (PreflightError _ _) = True"
| "is_PreflightError _ = False"

fun PreflightError_Reason :: "go_error \<Rightarrow> string" where
  "PreflightError_Reason (PreflightError r _) = r"
| "PreflightError_Reason _ = []"

definition IsPreflightError :: "go_error option \<Rightarrow> bool" where
  "IsPreflightError err =
     (case err of None \<Rightarrow> False | Some e \<Rightarrow> errors_As is_PreflightError e \<noteq> None)"

definition PreflightReason :: "go_error option \<Rightarrow> string" where
  "PreflightReason err =
     (case err of
        None \<Rightarrow> []
      | Some e \<Rightarrow> (case errors_As is_PreflightError e of None \<Rightarrow> [] | Some pe \<Rightarrow> PreflightError_Reason pe))"

interpretation preflight_err: typed_error is_PreflightError PreflightError_Reason IsPreflightError PreflightReason
  by unfold_locales (auto simp: IsPreflightError_def PreflightReason_def split: option.splits)

section \<open>The probes\<close>

record CapUserData =
  Effective :: u32
  Permitted :: u32
  Inheritable :: u32

record 'k host =
  os_Stat :: "string \<Rightarrow> 'k \<Rightarrow> go_error option \<times> 'k"
  unix_Capget :: "'k \<Rightarrow> (go_error + CapUserData \<times> CapUserData) \<times> 'k"

type_synonym 'k probe_fun = "'k \<Rightarrow> go_error option \<times> 'k"

definition tunDevicePath :: string where
  "tunDevicePath = ''/dev/net/tun''"

definition capNetAdminBit :: nat where
  "capNetAdminBit = 12"

definition defaultDeviceProbe :: "'k kernel \<Rightarrow> 'k host \<Rightarrow> 'k probe_fun" where
  "defaultDeviceProbe K H k =
     (case os_Stat H tunDevicePath k of
        (Some err, k1) \<Rightarrow>
          (if errors_Is err OsErrNotExist then (Some (PreflightError pf_ReasonTUNDeviceMissing (Some err)), k1)
           else (Some (PreflightError pf_ReasonTUNDeviceMissing (Some err)), k1))
      | (None, k1) \<Rightarrow>
          (case unix_Open K tunDevicePath O_RDWR 0 k1 of
             (Inl err, k2) \<Rightarrow>
               (Some (PreflightError pf_ReasonTUNDeviceNotReadWrite
                  (Some (Errorf [Txt (''open '' @ tunDevicePath @ '' O_RDWR: ''), W err]))), k2)
           | (Inr fd, k2) \<Rightarrow> (None, snd (unix_Close K fd k2))))"

definition defaultCapProbe :: "'k host \<Rightarrow> 'k probe_fun" where
  "defaultCapProbe H k =
     (case unix_Capget H k of
        (Inl err, k1) \<Rightarrow>
          (Some (PreflightError pf_ReasonCapProbeFailed (Some (Errorf [Txt ''capget: '', W err]))), k1)
      | (Inr (data0, data1), k1) \<Rightarrow>
          (if and (Effective data0) (push_bit capNetAdminBit 1) = 0 then
             (Some (PreflightError pf_ReasonCAPNetAdminMissing
                (Some (Errorf [Txt (''CAP_NET_ADMIN (bit '' @ fmt_d capNetAdminBit
                   @ '') not in effective set; effective=0x'' @ fmt_x (unat (Effective data0)))]))), k1)
           else (None, k1)))"

record 'k linux_preflight =
  probeDevice :: "'k probe_fun"
  probeCaps :: "'k probe_fun"

definition DefaultPreflight :: "'k kernel \<Rightarrow> 'k host \<Rightarrow> 'k linux_preflight" where
  "DefaultPreflight K H = \<lparr>probeDevice = defaultDeviceProbe K H, probeCaps = defaultCapProbe H\<rparr>"

definition preflight_Run :: "'k linux_preflight \<Rightarrow> 'k probe_fun" where
  "preflight_Run p k =
     (case probeDevice p k of
        (Some err, k1) \<Rightarrow> (Some err, k1)
      | (None, k1) \<Rightarrow> (case probeCaps p k1 of (Some err, k2) \<Rightarrow> (Some err, k2) | (None, k2) \<Rightarrow> (None, k2)))"

text \<open>The non-Linux stub \<^verbatim>\<open>preflight_other.go\<close>.\<close>

definition unsupportedPreflight_Run :: "string \<Rightarrow> go_error option" where
  "unsupportedPreflight_Run goos =
     Some (PreflightError pf_ReasonUnsupportedPlatform
       (Some (Errorf [Txt (''tun preflight: /dev/net/tun is Linux-only (GOOS='' @ goos @ '')'')])))"

section \<open>The contract of a probe\<close>

locale probe =
  fixes run :: "'k probe_fun"
    and holds :: "'k \<Rightarrow> bool"
    and reasons :: "string set"
  assumes nil_iff: "fst (run k) = None \<longleftrightarrow> holds k"
    and typed: "fst (run k) = Some e \<Longrightarrow> \<exists>r cause. e = PreflightError r (Some cause) \<and> r \<in> reasons"
begin

lemma fails_with_reason: "\<not> holds k \<Longrightarrow> PreflightReason (fst (run k)) \<in> reasons"
  using nil_iff [of k] typed [of k] preflight_err.reason_direct by (cases "fst (run k)") auto

end

locale probes_in_order = dev: probe run1 holds1 reasons1 + caps: probe run2 holds2 reasons2
  for run1 :: "'k probe_fun" and holds1 reasons1 and run2 :: "'k probe_fun" and holds2 reasons2
begin

lemma run_nil_iff:
  "fst (preflight_Run \<lparr>probeDevice = run1, probeCaps = run2\<rparr> k) = None \<longleftrightarrow> holds1 k \<and> holds2 (snd (run1 k))"
  using dev.nil_iff [of k] caps.nil_iff [of "snd (run1 k)"]
  by (auto simp: preflight_Run_def split: prod.splits option.splits)

lemma run_typed:
  "fst (preflight_Run \<lparr>probeDevice = run1, probeCaps = run2\<rparr> k) = Some e \<Longrightarrow>
     \<exists>r cause. e = PreflightError r (Some cause) \<and> r \<in> (if holds1 k then reasons2 else reasons1)"
  using dev.nil_iff [of k] dev.typed [of k e] caps.typed [of "snd (run1 k)" e]
  by (auto simp: preflight_Run_def split: prod.splits option.splits)

text \<open>The second probe runs only when the first found its precondition to hold.\<close>

lemma run_state:
  "snd (preflight_Run \<lparr>probeDevice = run1, probeCaps = run2\<rparr> k)
     = (if holds1 k then snd (run2 (snd (run1 k))) else snd (run1 k))"
  using dev.nil_iff [of k] by (auto simp: preflight_Run_def split: prod.splits option.splits)

end

sublocale probes_in_order \<subseteq> both: probe "preflight_Run \<lparr>probeDevice = run1, probeCaps = run2\<rparr>"
  "\<lambda>k. holds1 k \<and> holds2 (snd (run1 k))" "reasons1 \<union> reasons2"
proof unfold_locales
  fix k e
  show "fst (preflight_Run \<lparr>probeDevice = run1, probeCaps = run2\<rparr> k) = None \<longleftrightarrow> holds1 k \<and> holds2 (snd (run1 k))"
    by (rule run_nil_iff)
  assume "fst (preflight_Run \<lparr>probeDevice = run1, probeCaps = run2\<rparr> k) = Some e"
  from run_typed [OF this] show "\<exists>r cause. e = PreflightError r (Some cause) \<and> r \<in> reasons1 \<union> reasons2"
    by (auto split: if_splits)
qed

section \<open>The default probes\<close>

definition device_usable :: "'k kernel \<Rightarrow> 'k host \<Rightarrow> 'k \<Rightarrow> bool" where
  "device_usable K H k \<longleftrightarrow>
     fst (os_Stat H ''/dev/net/tun'' k) = None \<and>
     (\<exists>fd. fst (unix_Open K ''/dev/net/tun'' O_RDWR 0 (snd (os_Stat H ''/dev/net/tun'' k))) = Inr fd)"

definition has_net_admin :: "'k host \<Rightarrow> 'k \<Rightarrow> bool" where
  "has_net_admin H k \<longleftrightarrow> (\<exists>d0 d1 k'. unix_Capget H k = (Inr (d0, d1), k') \<and> bit (Effective d0) 12)"

lemma cap_bit: "and w (2 ^ capNetAdminBit) = 0 \<longleftrightarrow> \<not> bit w 12" for w :: u32
  unfolding capNetAdminBit_def by (rule and_exp_eq_0_iff_not_bit)

interpretation defaults: probes_in_order "defaultDeviceProbe K H" "device_usable K H"
  "{pf_ReasonTUNDeviceMissing, pf_ReasonTUNDeviceNotReadWrite}"
  "defaultCapProbe H" "has_net_admin H" "{pf_ReasonCapProbeFailed, pf_ReasonCAPNetAdminMissing}"
  for K H
  by unfold_locales
    (auto simp: defaultDeviceProbe_def device_usable_def tunDevicePath_def defaultCapProbe_def has_net_admin_def
      cap_bit split: prod.splits option.splits sum.splits if_splits)

text \<open>
  C16: The pre-flight check fails closed: \<^verbatim>\<open>DefaultPreflight().Run()\<close> returns nil if and only if
  the device path could be stat'ed, the device could be opened for reading and writing, the
  capability query succeeded, and bit 12 (\<^verbatim>\<open>CAP_NET_ADMIN\<close>) of the effective set is set; the
  permitted and inheritable sets do not matter.
\<close>

theorem preflight_fail_closed:
  "fst (preflight_Run (DefaultPreflight K H) k) = None \<longleftrightarrow>
     (\<exists>k1 k2 fd k3 d0 d1. os_Stat H ''/dev/net/tun'' k = (None, k1) \<and>
        unix_Open K ''/dev/net/tun'' O_RDWR 0 k1 = (Inr fd, k2) \<and>
        unix_Capget H (snd (unix_Close K fd k2)) = (Inr (d0, d1), k3) \<and> bit (Effective d0) 12)"
proof -
  have "fst (preflight_Run (DefaultPreflight K H) k) = None \<longleftrightarrow>
      device_usable K H k \<and> has_net_admin H (snd (defaultDeviceProbe K H k))"
    using defaults.run_nil_iff unfolding DefaultPreflight_def .
  also have "\<dots> \<longleftrightarrow> (\<exists>k1 k2 fd k3 d0 d1. os_Stat H ''/dev/net/tun'' k = (None, k1) \<and>
        unix_Open K ''/dev/net/tun'' O_RDWR 0 k1 = (Inr fd, k2) \<and>
        unix_Capget H (snd (unix_Close K fd k2)) = (Inr (d0, d1), k3) \<and> bit (Effective d0) 12)"
  proof (cases "os_Stat H ''/dev/net/tun'' k")
    case st: (Pair e k1)
    show ?thesis
    proof (cases "unix_Open K ''/dev/net/tun'' O_RDWR 0 k1")
      case (Pair r k2)
      with st show ?thesis
        by (cases e; cases r) (auto simp: device_usable_def has_net_admin_def defaultDeviceProbe_def
            tunDevicePath_def)
    qed
  qed
  finally show ?thesis .
qed

lemma device_probe_fds:
  assumes D: "fds_documented K fds" and "\<forall>p k. fds (snd (os_Stat H p k)) = fds k"
  shows "fds (snd (defaultDeviceProbe K H k)) = fds k"
proof -
  obtain e k1 where 1: "os_Stat H tunDevicePath k = (e, k1)" by fastforce
  then have k1: "fds k1 = fds k" using assms(2) by (metis snd_conv)
  obtain r k2 where 2: "unix_Open K tunDevicePath O_RDWR 0 k1 = (r, k2)" by fastforce
  show ?thesis
  proof (cases r)
    case (Inl err)
    with 1 2 k1 fds_documentedD(1) [OF D] show ?thesis by (cases e) (auto simp: defaultDeviceProbe_def)
  next
    case (Inr fd)
    with 2 fds_documentedD(2) [OF D] have "fd \<notin> fds k1" "fds k2 = insert fd (fds k1)" by blast+
    with 1 2 Inr k1 fds_documentedD(5) [OF D, of fd k2] show ?thesis
      by (cases e) (auto simp: defaultDeviceProbe_def)
  qed
qed

text \<open>
  C17: When the check fails, the error is a \<^verbatim>\<open>*PreflightError\<close> with a cause, and the device is
  judged first: the reason is about the capability only when the device was usable, so a process
  with neither is told about the device. The probe leaks no descriptor, whatever the outcome.
\<close>

theorem preflight_first_failure:
  assumes "fst (preflight_Run (DefaultPreflight K H) k) = Some e"
    and "fds_documented K fds" "\<forall>p k. fds (snd (os_Stat H p k)) = fds k" "\<forall>k. fds (snd (unix_Capget H k)) = fds k"
  shows "IsPreflightError (Some e) \<and> unwrap e \<noteq> [] \<and>
    PreflightReason (Some e) \<in> (if device_usable K H k then {''cap_probe_failed'', ''cap_net_admin_missing''}
       else {''tun_device_missing'', ''tun_device_not_read_write''}) \<and>
    fds (snd (preflight_Run (DefaultPreflight K H) k)) = fds k"
proof -
  let ?p = "\<lparr>probeDevice = defaultDeviceProbe K H, probeCaps = defaultCapProbe H\<rparr>"
  have "fst (preflight_Run ?p k) = Some e" using assms(1) by (simp add: DefaultPreflight_def)
  from defaults.run_typed [OF this] obtain r cause where e: "e = PreflightError r (Some cause)"
    "r \<in> (if device_usable K H k then {pf_ReasonCapProbeFailed, pf_ReasonCAPNetAdminMissing}
        else {pf_ReasonTUNDeviceMissing, pf_ReasonTUNDeviceNotReadWrite})" by auto
  have caps: "fds (snd (defaultCapProbe H k')) = fds k'" for k'
    using assms(4) by (cases "unix_Capget H k'") (auto simp: defaultCapProbe_def split: sum.splits dest: spec [of _ k'])
  have "fds (snd (preflight_Run ?p k)) = fds k"
    using device_probe_fds [OF assms(2,3), of k] caps by (simp add: defaults.run_state)
  with e preflight_err.reason_direct [of e] show ?thesis
    by (auto simp: DefaultPreflight_def pf_reason_defs split: if_splits)
qed

definition sample_host :: "fd list host" where
  "sample_host = \<lparr>os_Stat = \<lambda>p k. (None, k),
     unix_Capget = \<lambda>k. (Inr (\<lparr>Effective = 0x20, Permitted = 0x1000, Inheritable = 0\<rparr>,
       \<lparr>Effective = 0, Permitted = 0, Inheritable = 0\<rparr>), k)\<rparr>"

definition sample_preflight_error :: go_error where
  "sample_preflight_error = PreflightError pf_ReasonCAPNetAdminMissing (Some (Errorf [Txt
     ''CAP_NET_ADMIN (bit 12) not in effective set; effective=0x20'']))"

theorem preflight_first_failure_witness:
  "IsPreflightError (Some sample_preflight_error) \<and> unwrap sample_preflight_error \<noteq> [] \<and>
    PreflightReason (Some sample_preflight_error) \<in>
      (if device_usable sample_kernel sample_host [] then {''cap_probe_failed'', ''cap_net_admin_missing''}
       else {''tun_device_missing'', ''tun_device_not_read_write''}) \<and>
    set (snd (preflight_Run (DefaultPreflight sample_kernel sample_host) [])) = set []"
proof (rule preflight_first_failure [OF _ sample_kernel_documented])
  show "fst (preflight_Run (DefaultPreflight sample_kernel sample_host) []) = Some sample_preflight_error"
    by code_simp
qed (simp_all add: sample_host_def)

end
