(* ===== verification/Hostprobe.thy ===== *)
theory Hostprobe
  imports Preflight "HOL-Library.List_Lexorder" "HOL-Library.Char_ord"
begin

text \<open>
  The host probes of \<^verbatim>\<open>internal/hostprobe\<close>: the capability probe
  (\<^verbatim>\<open>capsprobe_linux.go\<close>), the UDP buffer probe (\<^verbatim>\<open>udpbuf_linux.go\<close>), the compile probe
  (\<^verbatim>\<open>bpfcompile.go\<close>) and the non-Linux stubs. \<^verbatim>\<open>capget\<close>, \<^verbatim>\<open>os.ReadFile\<close>, temporary
  files and child processes are parameters; \<^verbatim>\<open>strconv.ParseUint\<close> and \<^verbatim>\<open>sort.Strings\<close> are
  modelled. The properties: the capability report reads the right bits and agrees with the
  pre-flight check, the buffer probe inverts the kernel's decimal rendering, and the compile probe
  leaves no temporary file behind except on one path.
\<close>

section \<open>Capabilities\<close>

record Cap =
  Cap_Name :: string
  Cap_Bit :: nat

definition CapsRequired :: "Cap list" where
  "CapsRequired = [\<lparr>Cap_Name = ''CAP_NET_ADMIN'', Cap_Bit = 12\<rparr>,
     \<lparr>Cap_Name = ''CAP_BPF'', Cap_Bit = 39\<rparr>, \<lparr>Cap_Name = ''CAP_PERFMON'', Cap_Bit = 38\<rparr>]"

record CapsReport =
  Present :: "bool list"
  Effective_words :: "u32 list"

text \<open>The loop over the capabilities of \<^verbatim>\<open>CapsEffective\<close>; \<open>eff\<close> are the two effective words.\<close>

fun caps_loop :: "Cap list \<Rightarrow> u32 list \<Rightarrow> bool list \<Rightarrow> go_error + bool list" where
  "caps_loop [] eff present = Inr present"
| "caps_loop (c # cs) eff present =
     (let word = Cap_Bit c div 32 in
      if word > 1 then
        Inl (Errorf [Txt (''hostprobe: capability '' @ Cap_Name c @ '' has bit '' @ fmt_d (Cap_Bit c) @ '', beyond 64'')])
      else caps_loop cs eff (present @ [and (eff ! word) (push_bit (Cap_Bit c mod 32) 1) \<noteq> 0]))"

definition CapsEffective :: "'k host \<Rightarrow> 'k \<Rightarrow> (go_error + CapsReport) \<times> 'k" where
  "CapsEffective H k =
     (case unix_Capget H k of
        (Inl err, k') \<Rightarrow> (Inl (Errorf [Txt ''hostprobe: capget: '', W err]), k')
      | (Inr (data0, data1), k') \<Rightarrow>
          (let eff = [Effective data0, Effective data1] in
           case caps_loop CapsRequired eff [] of
             Inl err \<Rightarrow> (Inl err, k')
           | Inr present \<Rightarrow> (Inr \<lparr>Present = present, Effective_words = eff\<rparr>, k')))"

text \<open>
  The names selected by a loop that reads \<^verbatim>\<open>r.Present[i]\<close> for every index of \<^verbatim>\<open>CapsRequired\<close>:
  \<open>None\<close> is the panic of a report that is too short.
\<close>

definition caps_names :: "(bool \<Rightarrow> bool) \<Rightarrow> CapsReport \<Rightarrow> string list option" where
  "caps_names want r =
     (if length (Present r) < length CapsRequired then None
      else Some (sort (map Cap_Name (map fst (filter (\<lambda>(c, p). want p) (zip CapsRequired (Present r)))))))"

definition Missing :: "CapsReport \<Rightarrow> string list option" where
  "Missing r = caps_names (\<lambda>p. \<not> p) r"

definition PresentNames :: "CapsReport \<Rightarrow> string list option" where
  "PresentNames r = caps_names (\<lambda>p. p) r"

text \<open>The non-Linux stubs.\<close>

definition CapsEffective_other :: "go_error + CapsReport" where
  "CapsEffective_other = Inl UnsupportedPlatformError"

section \<open>The UDP buffer ceiling\<close>

definition RecommendedRmemMax :: u64 where
  "RecommendedRmemMax = push_bit 20 4"

record UDPBufReport =
  Val :: u64
  MeetsRecommendation :: bool

text \<open>\<^verbatim>\<open>strconv.ParseUint(s, 10, 64)\<close>: decimal digits only, with the range check at each digit.\<close>

definition ParseUint_error :: "string \<Rightarrow> string \<Rightarrow> go_error" where
  "ParseUint_error s msg = Foreign (''strconv.ParseUint: parsing '' @ fmt_q s @ '': '' @ msg) []"

fun ParseUint_loop :: "string \<Rightarrow> string \<Rightarrow> nat \<Rightarrow> go_error + u64" where
  "ParseUint_loop s [] n = Inr (word_of_nat n)"
| "ParseUint_loop s (c # cs) n =
     (if 48 \<le> (of_char c :: nat) \<and> (of_char c :: nat) \<le> 57 then
        (let n' = n * 10 + (of_char c - 48) in
         if n' \<ge> 2 ^ 64 then Inl (ParseUint_error s ''value out of range'') else ParseUint_loop s cs n')
      else Inl (ParseUint_error s ''invalid syntax''))"

definition ParseUint :: "string \<Rightarrow> go_error + u64" where
  "ParseUint s = (if s = [] then Inl (ParseUint_error s ''invalid syntax'') else ParseUint_loop s s 0)"

definition rmem_path :: string where
  "rmem_path = ''/proc/sys/net/core/rmem_max''"

definition UDPBufRmemMax :: "(string \<Rightarrow> go_error + string) \<Rightarrow> go_error + UDPBufReport" where
  "UDPBufRmemMax ReadFile =
     (case ReadFile rmem_path of
        Inl err \<Rightarrow> Inl (Errorf [Txt (''hostprobe: read '' @ rmem_path @ '': ''), W err])
      | Inr data \<Rightarrow>
          (let raw = TrimSpace data in
           if raw = [] then Inl (UDPBufUnreadableError rmem_path (ErrorsNew ''empty file''))
           else (case ParseUint raw of
                   Inl parseErr \<Rightarrow> Inl (UDPBufUnreadableError rmem_path parseErr)
                 | Inr val \<Rightarrow> Inr \<lparr>Val = val, MeetsRecommendation = (val \<ge> RecommendedRmemMax)\<rparr>)))"

definition UDPBufRmemMax_other :: "go_error + UDPBufReport" where
  "UDPBufRmemMax_other = Inl UnsupportedPlatformError"

section \<open>The compile probe\<close>










section \<open>Properties of the capability report\<close>

lemma and_pow_bit: "and w (2 ^ n) = 0 \<longleftrightarrow> \<not> bit w n" for w :: u32
  by (rule and_exp_eq_0_iff_not_bit)

lemma caps_loop_required:
  "caps_loop CapsRequired [e0, e1] [] = Inr [bit e0 12, bit e1 7, bit e1 6]"
  unfolding CapsRequired_def
  by (simp add: push_bit_eq_mult and_pow_bit [of _ 12, simplified] and_pow_bit [of _ 7, simplified]
      and_pow_bit [of _ 6, simplified])

text \<open>What a selection of names holds, for a report of the right length.\<close>

lemma caps_names_correct:
  assumes "length (Present r) = length CapsRequired"
  shows "\<exists>ns. caps_names want r = Some ns \<and> sorted ns \<and> distinct ns \<and>
    set ns = {Cap_Name (CapsRequired ! i) | i. i < length CapsRequired \<and> want (Present r ! i)}"
proof -
  let ?z = "zip CapsRequired (Present r)"
  let ?ns = "map (Cap_Name \<circ> fst) (filter (\<lambda>x. want (snd x)) ?z)"
  have "map (Cap_Name \<circ> fst) ?z = map Cap_Name CapsRequired" using assms by (simp flip: map_map)
  moreover have "distinct (map Cap_Name CapsRequired)" by (simp add: CapsRequired_def)
  ultimately have "distinct ?ns" by (intro distinct_map_filter) simp
  moreover have "set ?ns = {Cap_Name (CapsRequired ! i) | i. i < length CapsRequired \<and> want (Present r ! i)}"
    using assms by (force simp: set_zip)
  moreover have "caps_names want r = Some (sort ?ns)" using assms by (simp add: caps_names_def case_prod_unfold)
  ultimately show ?thesis by auto
qed

text \<open>
  C29: When the capability query succeeds, the report says of each required capability whether its
  bit of the 64-bit effective set (low word first) is set, no capability is out of range, and
  \<^verbatim>\<open>Missing\<close> and \<^verbatim>\<open>PresentNames\<close> are alphabetically sorted lists without duplicates: \<^verbatim>\<open>Missing\<close> has
  the names of exactly the required capabilities whose bit is clear, \<^verbatim>\<open>PresentNames\<close> of those whose
  bit is set.
\<close>

theorem caps_report_correct:
  assumes "unix_Capget H k = (Inr (d0, d1), k')"
  shows "\<exists>r ms ps. CapsEffective H k = (Inr r, k') \<and>
    (\<forall>i < length CapsRequired.
       Present r ! i = bit (word_cat (Effective d1) (Effective d0) :: u64) (Cap_Bit (CapsRequired ! i))) \<and>
    Missing r = Some ms \<and> PresentNames r = Some ps \<and> sorted ms \<and> sorted ps \<and> distinct ms \<and> distinct ps \<and>
    set ms = {Cap_Name c | c. c \<in> set CapsRequired \<and> \<not> bit (word_cat (Effective d1) (Effective d0) :: u64) (Cap_Bit c)} \<and>
    set ps = {Cap_Name c | c. c \<in> set CapsRequired \<and> bit (word_cat (Effective d1) (Effective d0) :: u64) (Cap_Bit c)}"
proof -
  let ?r = "\<lparr>Present = [bit (Effective d0) 12, bit (Effective d1) 7, bit (Effective d1) 6],
    Effective_words = [Effective d0, Effective d1]\<rparr>"
  have 1: "CapsEffective H k = (Inr ?r, k')"
    using assms by (simp add: CapsEffective_def caps_loop_required)
  have 2: "\<forall>i < length CapsRequired.
       Present ?r ! i = bit (word_cat (Effective d1) (Effective d0) :: u64) (Cap_Bit (CapsRequired ! i))"
    by (auto simp: CapsRequired_def bit_word_cat_iff less_Suc_eq)
  have len: "length (Present ?r) = length CapsRequired" by (simp add: CapsRequired_def)
  have sel: "{Cap_Name (CapsRequired ! i) | i. i < length CapsRequired \<and> want (Present ?r ! i)}
      = {Cap_Name c | c. c \<in> set CapsRequired \<and> want (bit (word_cat (Effective d1) (Effective d0) :: u64) (Cap_Bit c))}" for want
    using 2 by (auto simp: in_set_conv_nth)
  from caps_names_correct [OF len, of "\<lambda>p. \<not> p", unfolded sel] caps_names_correct [OF len, of "\<lambda>p. p", unfolded sel [of "\<lambda>p. p"]]
  obtain ms ps where "Missing ?r = Some ms" "PresentNames ?r = Some ps" "sorted ms" "sorted ps" "distinct ms" "distinct ps"
    "set ms = {Cap_Name c | c. c \<in> set CapsRequired \<and> \<not> bit (word_cat (Effective d1) (Effective d0) :: u64) (Cap_Bit c)}"
    "set ps = {Cap_Name c | c. c \<in> set CapsRequired \<and> bit (word_cat (Effective d1) (Effective d0) :: u64) (Cap_Bit c)}"
    unfolding Missing_def PresentNames_def by blast
  with 1 2 show ?thesis by blast
qed

theorem caps_report_correct_witness:
  "\<exists>r ms ps. CapsEffective sample_host [3] = (Inr r, [3]) \<and>
    (\<forall>i < length CapsRequired. Present r ! i = bit (word_cat (0 :: u32) (0x20 :: u32) :: u64) (Cap_Bit (CapsRequired ! i))) \<and>
    Missing r = Some ms \<and> PresentNames r = Some ps \<and> sorted ms \<and> sorted ps \<and> distinct ms \<and> distinct ps \<and>
    set ms = {Cap_Name c | c. c \<in> set CapsRequired \<and> \<not> bit (word_cat (0 :: u32) (0x20 :: u32) :: u64) (Cap_Bit c)} \<and>
    set ps = {Cap_Name c | c. c \<in> set CapsRequired \<and> bit (word_cat (0 :: u32) (0x20 :: u32) :: u64) (Cap_Bit c)}"
  using caps_report_correct [of sample_host "[3]" "\<lparr>Effective = 0x20, Permitted = 0x1000, Inheritable = 0\<rparr>"
      "\<lparr>Effective = 0, Permitted = 0, Inheritable = 0\<rparr>" "[3]"]
  by (simp add: sample_host_def)

text \<open>
  C30: The host probe and the daemon's pre-flight check agree on \<^verbatim>\<open>CAP_NET_ADMIN\<close>: in the same
  state the capability probe of the pre-flight returns nil if and only if the report of
  \<^verbatim>\<open>CapsEffective\<close> has that capability present, and both leave the state the same.
\<close>

theorem caps_agree_with_preflight:
  "(fst (defaultCapProbe H k) = None \<longleftrightarrow> (\<exists>r. fst (CapsEffective H k) = Inr r \<and> Present r ! 0)) \<and>
   snd (defaultCapProbe H k) = snd (CapsEffective H k)"
  by (auto simp: defaultCapProbe_def CapsEffective_def caps_loop_required cap_bit
      split: prod.splits sum.splits)

section \<open>Properties of the buffer probe\<close>

lemma ParseUint_loop_fmt_d:
  "ParseUint_loop s (fmt_d n @ rest) 0 =
     (if n < 2 ^ 64 then ParseUint_loop s rest n else Inl (ParseUint_error s ''value out of range''))"
proof (induction n arbitrary: rest rule: fmt_d.induct)
  case (1 n)
  show ?case
  proof (cases "n < 10")
    case True
    then show ?thesis by (subst fmt_d.simps) (simp add: hex_digit_def)
  next
    case False
    have digit: "n div 10 * 10 + n mod 10 = n" "n mod 10 \<le> 9" by simp_all
    have "ParseUint_loop s (fmt_d n @ rest) 0 = (if n div 10 < 2 ^ 64
        then ParseUint_loop s (hex_digit (n mod 10) # rest) (n div 10) else Inl (ParseUint_error s ''value out of range''))"
      using 1 False by (subst fmt_d.simps) simp
    also have "\<dots> = (if n < 2 ^ 64 then ParseUint_loop s rest n else Inl (ParseUint_error s ''value out of range''))"
      using digit by (auto simp: hex_digit_def Let_def)
    finally show ?thesis .
  qed
qed

lemma ParseUint_loop_nondigit:
  "\<exists>c \<in> set cs. \<not> (48 \<le> (of_char c :: nat) \<and> (of_char c :: nat) \<le> 57) \<Longrightarrow> \<exists>e. ParseUint_loop s cs n = Inl e"
  by (induction cs arbitrary: n) (auto simp: Let_def)

lemma TrimSpace_fmt_d: "TrimSpace (fmt_d n @ [char_of (10::nat)]) = fmt_d n"
proof -
  have "list_all graphic (fmt_d n)" using fmt_d_digits [of n] by (auto simp: list_all_iff graphic_def)
  with fmt_d_digits [of n] show ?thesis by (intro TrimSpace_line) (auto simp: list_all_iff)
qed

text \<open>
  C31: The buffer probe reads back what the kernel writes: for a file that holds the decimal form of
  any 64-bit value and a newline, the report's value is that value (zero included, which is not an
  error), and the recommendation is met exactly from 4 MiB = 4194304 on.
\<close>

theorem UDPBuf_roundtrip:
  assumes "ReadFile ''/proc/sys/net/core/rmem_max'' = Inr (fmt_d (unat v) @ [char_of (10::nat)])"
  shows "UDPBufRmemMax ReadFile = Inr \<lparr>Val = v, MeetsRecommendation = (4194304 \<le> unat v)\<rparr>"
proof -
  have "unat v < 2 ^ 64" using unsigned_less [of v] by simp
  with ParseUint_loop_fmt_d [of "fmt_d (unat v)" "unat v" "[]"] fmt_d_digits [of "unat v"]
  have "ParseUint (fmt_d (unat v)) = Inr v" by (simp add: ParseUint_def)
  with assms fmt_d_digits [of "unat v"] show ?thesis
    by (simp add: UDPBufRmemMax_def rmem_path_def TrimSpace_fmt_d RecommendedRmemMax_def word_le_nat_alt push_bit_eq_mult)
qed

theorem UDPBuf_roundtrip_witness:
  "UDPBufRmemMax (\<lambda>p. Inr (fmt_d (unat (212992 :: u64)) @ [char_of (10::nat)]))
     = Inr \<lparr>Val = 212992, MeetsRecommendation = (4194304 \<le> unat (212992 :: u64))\<rparr>"
  by (rule UDPBuf_roundtrip) (rule refl)

text \<open>
  Anything else fails as an error, never as a value: a file whose trimmed content is empty, has a
  byte that is not a digit, or denotes a number of 65 bits or more gives \<^verbatim>\<open>UDPBufUnreadableError\<close>.
\<close>

lemma UDPBuf_rejects:
  assumes "ReadFile ''/proc/sys/net/core/rmem_max'' = Inr data"
    and "TrimSpace data = [] \<or> (\<exists>c \<in> set (TrimSpace data). \<not> (48 \<le> (of_char c :: nat) \<and> (of_char c :: nat) \<le> 57)) \<or>
      (\<exists>n \<ge> 2 ^ 64. TrimSpace data = fmt_d n)"
  shows "\<exists>e. UDPBufRmemMax ReadFile = Inl (UDPBufUnreadableError ''/proc/sys/net/core/rmem_max'' e)"
proof (cases "TrimSpace data = []")
  case True
  with assms(1) show ?thesis by (simp add: UDPBufRmemMax_def rmem_path_def)
next
  case False
  with assms(2) have "\<exists>e. ParseUint (TrimSpace data) = Inl e"
    using ParseUint_loop_nondigit [of "TrimSpace data" "TrimSpace data" 0]
      ParseUint_loop_fmt_d [of "TrimSpace data" _ "[]"] by (auto simp: ParseUint_def)
  with False assms(1) show ?thesis by (auto simp: UDPBufRmemMax_def rmem_path_def)
qed

section \<open>Properties of the compile probe\<close>
















end
