(* ===== verification/Spec2Isabelle.thy ===== *)
theory Spec2Isabelle
  imports Hosts Mocks Hostprobe
begin

text \<open>
  This library models the Linux data path of the tunnel client and the host checks that come
  before it, all of \<^verbatim>\<open>src/internal\<close>, and proves the properties that make them correct.

  \<^bold>\<open>The program.\<close> A TUN device (\<^verbatim>\<open>internal/tunnel/tun\<close>) delivers and accepts IP packets.
  The pump (\<^verbatim>\<open>internal/tunnel/session\<close>) moves packets between the device and a tunnel with
  one goroutine per direction, a pool of buffers and a watcher that closes both ends on
  cancellation. The tunnel (\<^verbatim>\<open>internal/transport/grpc/wrapper.go\<close>) sends and receives frames on
  a byte stream with the codec \<^verbatim>\<open>tunnelpb/codec.go\<close>. Before that, the pre-flight check
  (\<^verbatim>\<open>tun/preflight_linux.go\<close>) and the host probes (\<^verbatim>\<open>internal/hostprobe\<close>) decide whether the
  host can run the tunnel, and link control (\<^verbatim>\<open>internal/tunnel/route\<close>) brings the device up and
  gives it an address by running \<^verbatim>\<open>ip\<close>. The packages under \<^verbatim>\<open>internal/contract\<close> hold the
  interfaces, the sentinels and the typed errors of these parts.

  \<^bold>\<open>Theories.\<close>
  \<^item> \<open>Go_Prelude\<close>, \<open>Go_Errors\<close>, \<open>Go_IO\<close>, \<open>Go_Net\<close>, \<open>Go_CIDR\<close>: what the sources use of the Go
    language and standard library: fixed-width integers, strings and byte slices,
    \<^verbatim>\<open>encoding/binary\<close>, the \<^verbatim>\<open>fmt\<close> verbs, \<^verbatim>\<open>strings\<close>, error values with \<^verbatim>\<open>errors.Is\<close> and
    \<^verbatim>\<open>errors.As\<close>, \<^verbatim>\<open>io.Reader\<close> and \<^verbatim>\<open>io.Writer\<close> with chunking and faults, \<^verbatim>\<open>net.IP\<close> and
    \<^verbatim>\<open>net.ParseCIDR\<close>. \<open>Go_Errors\<close> also has the \<^verbatim>\<open>Error()\<close> and \<^verbatim>\<open>Unwrap()\<close> methods of the typed
    errors and the locale \<open>typed_error\<close> of the three \<^verbatim>\<open>IsXError\<close>/\<^verbatim>\<open>XReason\<close> pairs; \<open>Go_IO\<close> has
    the locale \<open>record_format\<close> of an encoder and its decoder.
  \<^item> \<open>Codec\<close> and \<open>Codec_Correct\<close>: \<^verbatim>\<open>codec.go\<close>. One definition per writer and reader
    (\<open>WriteFrame\<close>, \<open>ReadFrame\<close>, \<open>writeHello\<close>, \<open>readHello\<close> and so on), the wire format \<open>enc_frame\<close>
    as the specification, and \<open>record_format\<close> interpreted on the six formats. Shown: round trips in
    both directions, canonical decoding, independence of the chunking, the error of a truncated
    record, the outcome of every write, the bounds of a record.
  \<^item> \<open>Closable\<close>: the locale of a resource whose closing is idempotent and final, interpreted on the
    tunnel and on the device.
  \<^item> \<open>Tunnel\<close>: \<^verbatim>\<open>wrapper.go\<close> (\<open>Wrap\<close>, \<open>SendFrame\<close>, \<open>RecvFrame\<close>, \<open>tunnel_Close\<close>). Shown: the
    frames sent without error are the first the peer receives, also with write faults, and what it
    can receive beyond them; after closing nothing happens.
  \<^item> \<open>Link\<close>: \<^verbatim>\<open>contract/route/link.go\<close> and \<^verbatim>\<open>route/link_linux.go\<close> (\<open>link_New\<close>, \<open>link_Up\<close>,
    \<open>link_Down\<close>, \<open>AddAddress\<close>, \<open>containsCIDR\<close>, \<open>execCommandRunner\<close>) with the locale
    \<open>link_contract\<close>. Shown: at most one address between two \<^verbatim>\<open>Down\<close> calls, the form of every
    command line, what a cached address has been confirmed by, the error taxonomy.
  \<^item> \<open>Mocks\<close>: \<^verbatim>\<open>link_mock.go\<close> and \<^verbatim>\<open>pump_mock.go\<close> with the locale \<open>recorder\<close> of a mocked method.
    Shown: calls are recorded and forwarded up to the first one without a function, which panics; a
    mock of the real methods behaves like the real link.
  \<^item> \<open>Tun_Device\<close>: \<^verbatim>\<open>contract/tun/tun.go\<close> and \<^verbatim>\<open>tun/tun_linux.go\<close>. Shown: no descriptor leaks on
    any path, a closed device refuses every call, the interface name survives the round trip
    through the kernel's request structure, up to the 15 bytes a kernel name has.
  \<^item> \<open>Preflight\<close>: \<^verbatim>\<open>contract/tun/preflight.go\<close> and \<^verbatim>\<open>tun/preflight_linux.go\<close> with the locales
    \<open>probe\<close> and \<open>probes_in_order\<close>. Shown: the check passes only on a usable device with the
    capability, and reports the first failure.
  \<^item> \<open>Hostprobe\<close>: \<^verbatim>\<open>internal/hostprobe\<close>. Shown: the capability report is correct and agrees with
    the pre-flight check, the buffer probe reads any kernel value back, and which temporary files
    the compile probe leaves, also when removing one fails.
  \<^item> \<open>Pump\<close>, \<open>Pump_Correct\<close>, \<open>Refinement\<close>, \<open>Pump_Refine\<close>: \<^verbatim>\<open>contract/session/Pump.go\<close> and
    \<^verbatim>\<open>session/pump_linux.go\<close>. \<^verbatim>\<open>Run\<close> is \<open>pump_Run\<close> (up to the start of the goroutines), the event
    functions \<open>up_fire\<close>, \<open>down_fire\<close> and \<open>watch_fire\<close> (\<^verbatim>\<open>pumpUp\<close>, \<^verbatim>\<open>pumpDown\<close> and the watcher, cut
    at the calls that can block) and \<open>Run_result\<close>; buffers are addresses in a heap, so that sharing
    is visible. Shown for every interleaving: packets that fit the buffers are carried unchanged
    and in order, the pump refines a relay without buffers (locale \<open>event_refinement\<close>), the
    result of \<^verbatim>\<open>Run\<close> as the first failure of the trace, the error taxonomy, what a packet larger than the
    buffers leads to, and that shutdown ends.
  \<^item> \<open>Codec_Stream\<close>: the codec on bytes that arrive over time. Shown: \<open>would_block\<close> decides whether
    \<^verbatim>\<open>ReadFrame\<close> waits, a call that does not wait is not changed by later bytes, and a stream
    determines its records.
  \<^item> \<open>System\<close> and \<open>System_Correct\<close>: one host, that is the pump on the Linux device and the stream
    wrapper, with every call executed by their models (\<open>sys_Run\<close>, \<open>sys_fire\<close>; \<open>event_refinement\<close> is
    interpreted on host and pump). A call that can block is two events: \<^verbatim>\<open>Read\<close>, \<^verbatim>\<open>Write\<close> and \<^verbatim>\<open>RecvFrame\<close>
    look at the \<^verbatim>\<open>closed\<close> flag and then wait for the kernel or the peer; \<^verbatim>\<open>SendFrame\<close> and the watcher's
    \<^verbatim>\<open>tun.Close\<close> take the wrapper's mutex and keep it (\<open>lock_held\<close>) until the stream accepts their bytes
    (\<open>stream_ready\<close>, flow control), and whoever needs the mutex meanwhile waits. Shown: descriptors and closing
    from \<^verbatim>\<open>Open\<close> to the end, shutdown in at most fifteen steps unless the stream accepts no bytes or a
    receive waits for the peer, and that such a send and such a receive are not ended by cancellation.
  \<^item> \<open>Hosts\<close>: two hosts connected by a stream in each direction, with buffers of at most 65535 bytes, of the
    same size or such that each host's packets fit the buffers of the other. Shown: packets cross from kernel to
    kernel unchanged and in order in every run; nothing is lost when the sender's tunnel is open, all bytes
    have arrived and the receiver waits for the next frame; and that without the condition on the sizes a packet can
    arrive mixed with a local one.
  \<^item> This theory: cancellation while a device read is in progress.
  The stubs for other platforms (\<^verbatim>\<open>*_other.go\<close>) are definitions with the suffix \<open>_other\<close>.

  \<^bold>\<open>Parameters and hypotheses.\<close> What is not in the repository is an argument of the definitions:
  the \<^verbatim>\<open>ip\<close> binary or its child process (\<open>executor\<close>, without hypothesis), the system calls
  and \<^verbatim>\<open>golang.org/x/sys/unix\<close> (\<open>kernel\<close>, hypotheses \<open>fds_documented\<close>, \<open>read_documented\<close> and
  \<open>name_documented\<close>; \<open>host\<close>), the compiler and
  temporary files (\<open>tools\<close>, hypothesis \<open>files_documented\<close>) and \<^verbatim>\<open>golang.org/x/sync/errgroup\<close>
  (\<open>errgroup\<close>, hypothesis \<open>errgroup_documented\<close>). Each hypothesis states documented behaviour and
  is shown satisfiable by an instance that the witnesses use.

  \<^bold>\<open>Bounds.\<close> No definition uses fuel: the recursions are structural or have a termination proof.
  The unbounded loops of the pump are lists of events, and a property of the pump holds for all of
  them. The fields \<open>results\<close>, \<open>read_log\<close>, \<open>send_log\<close>, \<open>recv_log\<close> and \<open>write_log\<close> of the pump's
  state only record what happened; no step reads them.

  \<^bold>\<open>Deviations of the code from its documents\<close> that the model shows are theorems too: a Session
  record cut inside an address reads as end of stream, an oversized packet gives one buffer two
  owners, cancelling during a read makes \<^verbatim>\<open>Run\<close> fail, cancelling during a receive or during a send that the
  stream does not accept does not end it, the peer's end of stream does not stop
  \<^verbatim>\<open>pumpUp\<close>, \<^verbatim>\<open>Down\<close> lets a second address in, the production executor hides the text that
  \<^verbatim>\<open>AddAddress\<close> looks for, and others.

  \<^bold>\<open>Not modelled.\<close> The interfaces \<^verbatim>\<open>Listener\<close> and \<^verbatim>\<open>AttestationSink\<close>, which have no implementation; the
  protocol file, the documents and the build files. Context arguments that the code ignores are
  left out, the context of \<^verbatim>\<open>Run\<close> is the flag \<open>parent_done\<close>. The verb \<^verbatim>\<open>%q\<close> is exact for ASCII text.
  Nil pointers that make Go panic (a nil \<^verbatim>\<open>*Frame\<close>) are outside the types. The device's
  \<^verbatim>\<open>Close\<close> (flag, then file) is one event. The bytes of a record enter the stream when the \<^verbatim>\<open>Write\<close> that was
  waiting returns: a part of a record that a stalled stream already took is not visible to the peer before. Go's \<^verbatim>\<open>int\<close> is the 64-bit
  one, and the sum of MTU and overhead wraps; that a huge allocation fails is not modelled. Data races below the granularity of one event (two goroutines copying into one buffer at the same time) are outside
  the model.
\<close>

section \<open>Cancellation while a read is in progress\<close>

lemma fire_results_append: "fire G e s = Some s' \<Longrightarrow> \<exists>rs. results s' = results s @ rs"
  by (erule fire_cases) (auto dest: up_fire_result down_fire_result)

lemma sys_results_append:
  assumes "sys_run G K fs \<sigma> = Some \<tau>" "group_ok G (pump_of \<sigma>)"
  shows "group_ok G (pump_of \<tau>) \<and> (\<exists>rs. results (pump_of \<tau>) = results (pump_of \<sigma>) @ rs)"
proof -
  let ?P = "\<lambda>s. group_ok G s \<and> (\<exists>rs. results s = results (pump_of \<sigma>) @ rs)"
  have step: "?P s \<Longrightarrow> fire G e s = Some s' \<Longrightarrow> ?P s'" for e s s'
    using fire_group_ok fire_results_append [of G e s s'] by fastforce
  have "?P (pump_of s')" if "?P (pump_of s)" "sys_fire G K e s = Some s'" for e s s'
    by (rule run_list_inv [where P = ?P, OF sys_fire_pump [OF that(2)] that(1)]) (rule step)
  then show ?thesis by (rule run_list_inv [where P = "\<lambda>s. ?P (pump_of s)", OF assms(1), rotated]) (use assms(2) in auto)
qed

text \<open>
  C33: When the watcher closes the device while \<^verbatim>\<open>pumpUp\<close> is inside \<^verbatim>\<open>Read\<close>, past the check of the
  \<^verbatim>\<open>closed\<close> flag, where it normally waits, that read can complete, whether the kernel has a packet or
  not; it returns the error of the closed file, and \<^verbatim>\<open>pumpUp\<close> takes it for a failure and returns a
  \<^verbatim>\<open>read_tun_failed\<close> error. From then on, in any further run, \<^verbatim>\<open>Run\<close> does not return nil. If no direction had
  failed before, the only thing \<^verbatim>\<open>Run\<close> can return is this error; otherwise it is the earlier failure.
  The contract promises nil for a cancelled context.
\<close>

theorem cancel_during_read_fails:
  assumes "errgroup_documented G" "sys_Run G K p d t k = (Inr \<sigma>0, k2)" "\<not> d_closed d" "\<not> f_closed (d_f d)"
    and "sys_run G K es \<sigma>0 = Some \<sigma>" "up (pump_of \<sigma>) = UpRead a" "in_read \<sigma>" "watch (pump_of \<sigma>) \<noteq> WWait"
  shows "\<exists>x \<sigma>'. sys_fire G K SReadDo \<sigma> = Some \<sigma>' \<and> up (pump_of \<sigma>') = UpRet (Some x) \<and>
    PumpReason (Some x) = ''read_tun_failed'' \<and>
    (\<forall>fs \<tau> r. sys_run G K fs \<sigma>' = Some \<tau> \<and> Run_result G (pump_of \<tau>) = Some r \<longrightarrow>
      r = (case first_error (results (pump_of \<sigma>)) of None \<Rightarrow> Some x | Some y \<Rightarrow> Some y))"
proof -
  let ?err = "PathError_closed ''read'' (d_f (dev_of \<sigma>))"
  let ?x = "PumpError ReasonReadTUNFailed ''read tun'' (Some ?err)"
  have "flags_inv \<sigma>0" using sys_Run_start [OF assms(2)] sys_Run_watch [OF assms(2)] assms(3,4) by (simp add: flags_inv_def)
  then have "flags_inv \<sigma>" by (rule run_list_inv [OF assms(5)]) (rule flags_inv_step)
  with assms(8) have "f_closed (d_f (dev_of \<sigma>))" by (simp add: flags_inv_def)
  then have b: "f_closed (d_f (dev_of \<sigma>))" "read_body K n (dev_of \<sigma>) k' = (([], Some ?err), k')" for n k'
    by (simp_all add: read_body_def File_Read_def)
  have "up_read_error ?err = Some ?x" by (simp add: up_read_error_def ctx_error_def PathError_closed_def)
  with assms(6,7) b obtain \<sigma>' where s': "sys_fire G K SReadDo \<sigma> = Some \<sigma>'" "up (pump_of \<sigma>') = UpRet (Some ?x)"
    "results (pump_of \<sigma>') = results (pump_of \<sigma>) @ [Some ?x]"
    by (auto simp: lift_pump_def up_fire.simps Let_def pump_upd_defs)
  have g: "group_ok G (pump_of \<sigma>')"
    using sys_fire_ctx [OF assms(1) sys_run_group_ok [OF assms(2,5)] s'(1)] by simp
  have "r = (case first_error (results (pump_of \<sigma>)) of None \<Rightarrow> Some ?x | Some y \<Rightarrow> Some y)"
    if "sys_run G K fs \<sigma>' = Some \<tau>" "Run_result G (pump_of \<tau>) = Some r" for fs \<tau> r
  proof -
    from sys_results_append [OF that(1) g] obtain rs where "group_ok G (pump_of \<tau>)"
      "results (pump_of \<tau>) = results (pump_of \<sigma>) @ Some ?x # rs" using s'(3) by auto
    with Run_result_first [OF assms(1) _ that(2)] show ?thesis by (simp add: first_error_append split: option.split)
  qed
  moreover have "PumpReason (Some ?x) = ''read_tun_failed''"
    using pump_err.reason_direct [of ?x] by (simp add: ReasonReadTUNFailed_def)
  ultimately show ?thesis using s'(1,2) by blast
qed

text \<open>The sample host, cancelled while it waits for a packet of its kernel.\<close>

definition cancelled_read :: "(go_error option list, fd list) system" where
  "cancelled_read = the (sys_run list_group sample_kernel [SUpLoop Fresh, SReadCheck, SCancel, SWatchDev] small_host)"

lemma cancelled_read_run:
  "sys_run list_group sample_kernel [SUpLoop Fresh, SReadCheck, SCancel, SWatchDev] small_host = Some cancelled_read"
  "up (pump_of cancelled_read) = UpRead 0" "in_read cancelled_read" "watch (pump_of cancelled_read) \<noteq> WWait"
proof -
  have "sys_run list_group sample_kernel [SUpLoop Fresh, SReadCheck, SCancel, SWatchDev] small_host \<noteq> None" by code_simp
  then show "sys_run list_group sample_kernel [SUpLoop Fresh, SReadCheck, SCancel, SWatchDev] small_host = Some cancelled_read"
    by (simp add: cancelled_read_def del: run_list.simps)
qed code_simp+

theorem cancel_during_read_fails_witness:
  "\<exists>x \<tau>. sys_run list_group sample_kernel [SReadDo, SDnLoop] cancelled_read = Some \<tau> \<and>
    PumpReason (Some x) = ''read_tun_failed'' \<and> Run_result list_group (pump_of \<tau>) = Some (Some x)"
proof -
  have "\<not> d_closed sample_device" "\<not> f_closed (d_f sample_device)" by (simp_all add: sample_device_def)
  from cancel_during_read_fails [OF list_group_documented small_host_Run this cancelled_read_run] obtain x \<sigma>' where
    x: "sys_fire list_group sample_kernel SReadDo cancelled_read = Some \<sigma>'" "PumpReason (Some x) = ''read_tun_failed''"
    and r: "\<And>fs \<tau> r. sys_run list_group sample_kernel fs \<sigma>' = Some \<tau> \<Longrightarrow> Run_result list_group (pump_of \<tau>) = Some r \<Longrightarrow>
      r = (case first_error (results (pump_of cancelled_read)) of None \<Rightarrow> Some x | Some y \<Rightarrow> Some y)" by blast
  have "case sys_run list_group sample_kernel [SReadDo, SDnLoop] cancelled_read of None \<Rightarrow> False
    | Some \<tau> \<Rightarrow> Run_result list_group (pump_of \<tau>) \<noteq> None" by code_simp
  then obtain \<tau> y where t: "sys_run list_group sample_kernel [SReadDo, SDnLoop] cancelled_read = Some \<tau>"
    "Run_result list_group (pump_of \<tau>) = Some y" by (auto split: option.splits simp del: run_list.simps sys_fire.simps)
  have "sys_run list_group sample_kernel [SDnLoop] \<sigma>' = Some \<tau>" using t(1) x(1) by (simp del: sys_fire.simps)
  moreover have "first_error (results (pump_of cancelled_read)) = None" by code_simp
  ultimately have "y = Some x" using r t(2) by fastforce
  with t x(2) show ?thesis by blast
qed

end
